theory Spec2Isabelle
  imports Complex_Main "HOL-Library.AList" "HOL-Library.Char_ord" "HOL-Library.List_Lexorder"
begin

section \<open>The tabular data engine, as far as the validity checks use it\<close>

text \<open>
  A Hail Table is an immutable value: a list of rows, in table order. A Hail expression over
  the rows of a table is a function of the row; its value at a row may be missing, which is
  \<open>None\<close>. Comparisons are missing as soon as one operand is missing. The aggregator
  \<^verbatim>\<open>hl.agg.count_where\<close> and \<^verbatim>\<open>Table.filter\<close> both select the rows at which the predicate
  is true; a row at which it is missing is neither counted nor kept.
\<close>

datatype error = ValueError | KeyError | IndexError | TypeError | ZeroDivisionError
  | AttributeError | HailException

type_synonym ('r, 'a) expr = "'r \<Rightarrow> 'a option"

record 'r table =
  rows :: "'r list"

definition hl_eq :: "('r, 'a) expr \<Rightarrow> ('r, 'a) expr \<Rightarrow> ('r, bool) expr" where
  "hl_eq a b = (\<lambda>r. case a r of None \<Rightarrow> None
                   | Some x \<Rightarrow> (case b r of None \<Rightarrow> None | Some y \<Rightarrow> Some (x = y)))"

definition hl_ne :: "('r, 'a) expr \<Rightarrow> ('r, 'a) expr \<Rightarrow> ('r, bool) expr" where
  "hl_ne a b = (\<lambda>r. case a r of None \<Rightarrow> None
                   | Some x \<Rightarrow> (case b r of None \<Rightarrow> None | Some y \<Rightarrow> Some (x \<noteq> y)))"

definition hl_lt :: "('r, 'a::linorder) expr \<Rightarrow> ('r, 'a) expr \<Rightarrow> ('r, bool) expr" where
  "hl_lt a b = (\<lambda>r. case a r of None \<Rightarrow> None
                   | Some x \<Rightarrow> (case b r of None \<Rightarrow> None | Some y \<Rightarrow> Some (x < y)))"

definition hl_le :: "('r, 'a::linorder) expr \<Rightarrow> ('r, 'a) expr \<Rightarrow> ('r, bool) expr" where
  "hl_le a b = (\<lambda>r. case a r of None \<Rightarrow> None
                   | Some x \<Rightarrow> (case b r of None \<Rightarrow> None | Some y \<Rightarrow> Some (x \<le> y)))"

definition hl_gt :: "('r, 'a::linorder) expr \<Rightarrow> ('r, 'a) expr \<Rightarrow> ('r, bool) expr" where
  "hl_gt a b = hl_lt b a"

definition hl_lit :: "'a \<Rightarrow> ('r, 'a) expr" where
  "hl_lit c = (\<lambda>r. Some c)"

definition hl_is_defined :: "('r, 'a) expr \<Rightarrow> ('r, bool) expr" where
  "hl_is_defined a = (\<lambda>r. Some (a r \<noteq> None))"

definition hl_is_missing :: "('r, 'a) expr \<Rightarrow> ('r, bool) expr" where
  "hl_is_missing a = (\<lambda>r. Some (a r = None))"

text \<open>\<^verbatim>\<open>a & b\<close> on boolean expressions: false wins over missing.\<close>

definition hl_and :: "('r, bool) expr \<Rightarrow> ('r, bool) expr \<Rightarrow> ('r, bool) expr" where
  "hl_and a b = (\<lambda>r. case (a r, b r) of
       (Some False, _) \<Rightarrow> Some False
     | (_, Some False) \<Rightarrow> Some False
     | (Some True, Some True) \<Rightarrow> Some True
     | _ \<Rightarrow> None)"

text \<open>\<^verbatim>\<open>hl.if_else(c, a, b)\<close>: missing when the condition is missing.\<close>

definition hl_if_else :: "('r, bool) expr \<Rightarrow> ('r, 'a) expr \<Rightarrow> ('r, 'a) expr \<Rightarrow> ('r, 'a) expr" where
  "hl_if_else c a b = (\<lambda>r. case c r of None \<Rightarrow> None | Some True \<Rightarrow> a r | Some False \<Rightarrow> b r)"

definition hl_or_else :: "('r, 'a) expr \<Rightarrow> 'a \<Rightarrow> ('r, 'a) expr" where
  "hl_or_else a d = (\<lambda>r. case a r of None \<Rightarrow> Some d | Some x \<Rightarrow> Some x)"

definition holds :: "('r, bool) expr \<Rightarrow> 'r \<Rightarrow> bool" where
  "holds p r = (p r = Some True)"

definition table_filter :: "('r, 'z) table_scheme \<Rightarrow> ('r, bool) expr \<Rightarrow> ('r, 'z) table_scheme" where
  "table_filter ht p = ht\<lparr>rows := filter (holds p) (rows ht)\<rparr>"

definition table_count :: "('r, 'z) table_scheme \<Rightarrow> int" where
  "table_count ht = int (length (rows ht))"

definition agg_count_where :: "('r, bool) expr \<Rightarrow> 'r list \<Rightarrow> int" where
  "agg_count_where p rs = int (length (filter (holds p) rs))"

definition agg_any :: "('r, bool) expr \<Rightarrow> 'r list \<Rightarrow> bool" where
  "agg_any p rs = list_ex (holds p) rs"

text \<open>
  \<^verbatim>\<open>hl.agg.fraction\<close>: the rows at which the predicate is true over all rows. Over no rows
  at all the engine has no fraction to give (the quotient is 0/0); that is \<open>None\<close>. The
  quotient is kept exact, as a rational.
\<close>

definition agg_fraction :: "('r, bool) expr \<Rightarrow> 'r list \<Rightarrow> rat option" where
  "agg_fraction p rs =
     (if rs = [] then None
      else Some (of_nat (length (filter (holds p) rs)) / of_nat (length rs)))"

section \<open>Python dictionaries\<close>

text \<open>
  A dict is an association list with distinct keys in insertion order. \<^verbatim>\<open>d[k] = v\<close> is
  \<^const>\<open>AList.update\<close>: it replaces the value in place when the key is there and appends
  otherwise. \<^verbatim>\<open>d[k]\<close> and \<^verbatim>\<open>d.pop(k)\<close> raise KeyError on a key that is not there.
\<close>

type_synonym ('k, 'v) dict = "('k \<times> 'v) list"

definition dict_get :: "('k, 'v) dict \<Rightarrow> 'k \<Rightarrow> error + 'v" where
  "dict_get d k = (case map_of d k of None \<Rightarrow> Inl KeyError | Some v \<Rightarrow> Inr v)"

definition dict_pop :: "('k, 'v) dict \<Rightarrow> 'k \<Rightarrow> error + ('v \<times> ('k, 'v) dict)" where
  "dict_pop d k = (case map_of d k of None \<Rightarrow> Inl KeyError
                   | Some v \<Rightarrow> Inr (v, AList.delete k d))"

section \<open>Runs: what a check prints and asks of the engine, and how it ends\<close>

text \<open>
  The checks return nothing; what they do is call the logger and the engine. A run is the
  list of these calls in order, with the arguments handed over, and the way the call ended:
  an exception or a returned value. The logger's format strings are the constructors:
  \<^item> \<open>Log_found n d\<close>: \<^verbatim>\<open>"Found %d sites that fail %s check:"\<close>
  \<^item> \<open>Log_percent q\<close>: \<^verbatim>\<open>"Percentage of sites that fail: %.2f %%"\<close>
  \<^item> \<open>Log_passed d\<close>: \<^verbatim>\<open>"PASSED %s check"\<close>
  \<^item> \<open>Log_warning f\<close>: \<^verbatim>\<open>"%s is not in table's info field"\<close>
  \<^item> \<open>Log_comparing s g m\<close>: \<^verbatim>\<open>"Comparing the %s subset's %s %s to entire callset's %s %s"\<close>
  \<^item> \<open>Log_total_defined_raw_ac n\<close>: \<^verbatim>\<open>"Total defined raw AC count: %s"\<close>
  \<^item> \<open>Log_y_failed m vs\<close>: \<^verbatim>\<open>"FAILED %s = %s check for Y variants. Values found: %s"\<close>
  \<^item> \<open>Log_y_passed m\<close>: \<^verbatim>\<open>"PASSED %s = %s check for Y variants"\<close>
  \<^item> \<open>Log_x_nonpar n\<close>: \<^verbatim>\<open>"Found %d X nonpar sites"\<close>
  \<^item> \<open>Log_info s\<close>: a message without arguments.
  \<open>Engine_show\<close> carries the table handed to \<^verbatim>\<open>show\<close>: for each of its rows the displayed
  fields with their values.
\<close>

datatype 'v event =
    Engine_filter_count
  | Engine_count
  | Engine_aggregate
  | Engine_show "(string \<times> 'v) list list"
  | Log_found int string
  | Log_percent rat
  | Log_passed string
  | Log_warning string
  | Log_comparing string string string
  | Log_total_defined_raw_ac int
  | Log_y_failed string "'v list"
  | Log_y_passed string
  | Log_x_nonpar int
  | Log_info string

type_synonym ('v, 'a) run = "'v event list \<times> (error + 'a)"

definition then_run :: "('v, 'a) run \<Rightarrow> ('a \<Rightarrow> ('v, 'b) run) \<Rightarrow> ('v, 'b) run" where
  "then_run m f = (case m of
       (tr, Inl e) \<Rightarrow> (tr, Inl e)
     | (tr, Inr x) \<Rightarrow> (case f x of (tr', res) \<Rightarrow> (tr @ tr', res)))"

definition emit :: "'v event list \<Rightarrow> ('v, unit) run" where
  "emit evs = (evs, Inr ())"

text \<open>A \<^verbatim>\<open>for\<close> loop whose body only prints: it stops at the first exception.\<close>

fun run_each :: "('a \<Rightarrow> ('v, unit) run) \<Rightarrow> 'a list \<Rightarrow> ('v, unit) run" where
  "run_each f [] = ([], Inr ())"
| "run_each f (x # xs) = then_run (f x) (\<lambda>_. run_each f xs)"

section \<open>The generic reporter\<close>

text \<open>
  One registered check, as the builders store it under its description: the failure
  predicate \<^verbatim>\<open>"expr"\<close>, the aggregator \<^verbatim>\<open>"agg_func"\<close> and the \<^verbatim>\<open>"display_fields"\<close>, a struct
  of named expressions.
\<close>

record ('r, 'v) field_check =
  expr :: "('r, bool) expr"
  agg_func :: "('r, bool) expr \<Rightarrow> 'r list \<Rightarrow> int"
  display_fields :: "(string \<times> ('r \<Rightarrow> 'v)) list"

definition table_select ::
  "('r, 'z) table_scheme \<Rightarrow> (string \<times> ('r \<Rightarrow> 'v)) list \<Rightarrow> (string \<times> 'v) list list" where
  "table_select ht flds = map (\<lambda>r. map (\<lambda>(name, e). (name, e r)) flds) (rows ht)"

text \<open>
  \<^verbatim>\<open>generic_field_check\<close>. The temporary column \<^verbatim>\<open>_fail\<close> of the failure branch is added and
  dropped again before \<^verbatim>\<open>show\<close>; the display fields are taken not to use that name.
  \<^verbatim>\<open>n_fail / ht_count\<close> is Python's true division: it raises on a zero count.
\<close>

definition generic_field_check ::
  "('r, 'z) table_scheme \<Rightarrow> string \<Rightarrow> (string \<times> ('r \<Rightarrow> 'v)) list \<Rightarrow> ('r, bool) expr option
     \<Rightarrow> bool \<Rightarrow> bool \<Rightarrow> int option \<Rightarrow> int option \<Rightarrow> ('v, unit) run" where
  "generic_field_check ht check_description disp_fields cond_expr verbose
       show_percent_sites n_fail ht_count =
    (if n_fail = None \<and> cond_expr = None then ([], Inl ValueError)
     else
       then_run
         (case n_fail of
            Some n \<Rightarrow> ([], Inr n)
          | None \<Rightarrow> (case cond_expr of
               Some c \<Rightarrow> ([Engine_filter_count], Inr (table_count (table_filter ht c)))
             | None \<Rightarrow> ([], Inl ValueError)))
         (\<lambda>n_fail.
       then_run
         (if show_percent_sites \<and> ht_count = None
          then ([Engine_count], Inr (Some (table_count ht)))
          else ([], Inr ht_count))
         (\<lambda>ht_count.
       if n_fail > 0 then
         then_run (emit [Log_found n_fail check_description]) (\<lambda>_.
         then_run
           (if show_percent_sites then
              (case ht_count of
                 None \<Rightarrow> ([], Inl TypeError)
               | Some c \<Rightarrow>
                   if c = 0 then ([], Inl ZeroDivisionError)
                   else emit [Log_percent (100 * (of_int n_fail / of_int c))])
            else emit []) (\<lambda>_.
         (case cond_expr of
            Some c \<Rightarrow> emit [Engine_show (table_select (table_filter ht c) disp_fields)]
          | None \<Rightarrow> emit [])))
       else
         then_run (emit [Log_passed check_description]) (\<lambda>_.
         if verbose then emit [Engine_show (table_select ht disp_fields)] else emit []))))"

section \<open>The batched check executor\<close>

text \<open>
  \<^verbatim>\<open>ht.aggregate(hl.struct(**{k: v["agg_func"](v["expr"]) ...}))\<close>: one request to the engine,
  answered by a struct with one count per description, in the order of the dict.
\<close>

definition aggregate_checks ::
  "('r, 'z) table_scheme \<Rightarrow> (string, ('r, 'v) field_check) dict \<Rightarrow> (string, int) dict" where
  "aggregate_checks ht field_check_expr =
     map (\<lambda>(k, v). (k, agg_func v (expr v) (rows ht))) field_check_expr"

definition generic_field_check_loop ::
  "('r, 'z) table_scheme \<Rightarrow> (string, ('r, 'v) field_check) dict \<Rightarrow> bool \<Rightarrow> bool \<Rightarrow> int option
     \<Rightarrow> ('v, unit) run" where
  "generic_field_check_loop ht field_check_expr verbose show_percent_sites ht_count =
     then_run ([Engine_aggregate], Inr (aggregate_checks ht field_check_expr))
       (\<lambda>ht_field_check_counts.
          run_each (\<lambda>(check_description, n_fail).
              case dict_get field_check_expr check_description of
                Inl e \<Rightarrow> ([], Inl e)
              | Inr v \<Rightarrow>
                  generic_field_check ht check_description (display_fields v) (Some (expr v))
                    verbose show_percent_sites (Some n_fail) ht_count)
            ht_field_check_counts)"

text \<open>
  The unbatched executor of the specification: every check is handed to the reporter
  without a count, so that the reporter filters the table with that one predicate and
  counts the rows.
\<close>

definition unbatched_field_check_loop ::
  "('r, 'z) table_scheme \<Rightarrow> (string, ('r, 'v) field_check) dict \<Rightarrow> bool \<Rightarrow> bool \<Rightarrow> int option
     \<Rightarrow> ('v, unit) run" where
  "unbatched_field_check_loop ht field_check_expr verbose show_percent_sites ht_count =
     run_each (\<lambda>(check_description, v).
         generic_field_check ht check_description (display_fields v) (Some (expr v))
           verbose show_percent_sites None ht_count)
       field_check_expr"

text \<open>What the reader of the report sees: the run without the engine's counting passes.\<close>

fun is_pass :: "'v event \<Rightarrow> bool" where
  "is_pass Engine_filter_count = True"
| "is_pass Engine_aggregate = True"
| "is_pass _ = False"

definition report :: "('v, 'a) run \<Rightarrow> ('v, 'a) run" where
  "report m = (filter (\<lambda>e. \<not> is_pass e) (fst m), snd m)"

text \<open>The verdict of a run of the reporter: the first verdict line it printed.\<close>

datatype verdict = PASSED string | FAILED int string

fun verdicts :: "'v event list \<Rightarrow> verdict list" where
  "verdicts [] = []"
| "verdicts (Log_found n d # es) = FAILED n d # verdicts es"
| "verdicts (Log_passed d # es) = PASSED d # verdicts es"
| "verdicts (_ # es) = verdicts es"

fun is_percent :: "'v event \<Rightarrow> bool" where
  "is_percent (Log_percent q) = True"
| "is_percent _ = False"

section \<open>Variant tables and the builders of field checks\<close>

text \<open>
  A row of a release table: its locus, the \<^verbatim>\<open>info\<close> struct and the \<^verbatim>\<open>filters\<close> set. The value
  of an info field at a row may be missing. The numeric type of the call statistics is left
  open (an ordered ring: integers for AC, AN and nhomalt, exact fractions for AF). The
  table knows the names of its row fields and of the fields of \<^verbatim>\<open>info\<close>, and its reference
  genome: the contigs, and the pseudo-autosomal intervals as (contig, first position,
  position after the last).
\<close>

record 'n vrow =
  contig :: string
  position :: int
  info :: "string \<Rightarrow> 'n option"
  filters :: "string list"

record 'n vtable = "'n vrow table" +
  row_fields :: "string list"
  info_fields :: "string list"
  genome_contigs :: "string list"
  x_contigs :: "string list"
  par :: "(string \<times> int \<times> int) list"

text \<open>What a check can display: a call statistic or the filters of the row.\<close>

datatype 'n dval = Num "'n option" | Filters "string list"

text \<open>\<^verbatim>\<open>t.info[field]\<close> raises KeyError when the struct has no such field.\<close>

definition info_field :: "('n, 'z) vtable_scheme \<Rightarrow> string \<Rightarrow> error + ('n vrow, 'n) expr" where
  "info_field t field =
     (if field \<in> set (info_fields t) then Inr (\<lambda>r. info r field) else Inl KeyError)"

definition table_filters :: "('n, 'z) vtable_scheme \<Rightarrow> error + ('n vrow \<Rightarrow> string list)" where
  "table_filters t =
     (if ''filters'' \<in> set (row_fields t) then Inr filters else Inl AttributeError)"

definition bind_err :: "error + 'a \<Rightarrow> ('a \<Rightarrow> error + 'b) \<Rightarrow> error + 'b" where
  "bind_err m f = (case m of Inl e \<Rightarrow> Inl e | Inr x \<Rightarrow> f x)"

text \<open>A \<^verbatim>\<open>for\<close> loop that updates a dict and may print: it stops at the first exception.\<close>

fun for_each :: "'a list \<Rightarrow> ('a \<Rightarrow> 's \<Rightarrow> ('v, 's) run) \<Rightarrow> 's \<Rightarrow> ('v, 's) run" where
  "for_each [] body s = ([], Inr s)"
| "for_each (x # xs) body s = then_run (body x s) (for_each xs body)"

text \<open>
  \<^verbatim>\<open>field_check_expr[key] = {...}\<close>: the right-hand side is evaluated first, and may raise.
\<close>

definition register ::
  "string \<Rightarrow> error + 'c \<Rightarrow> (string, 'c) dict \<Rightarrow> ('v, (string, 'c) dict) run" where
  "register key entry field_check_expr =
     (case entry of Inl e \<Rightarrow> ([], Inl e)
      | Inr v \<Rightarrow> ([], Inr (AList.update key v field_check_expr)))"

text \<open>The entry that most builders register: two info fields compared, both displayed.\<close>

definition compare_entry ::
  "(('n vrow, 'n) expr \<Rightarrow> ('n vrow, 'n) expr \<Rightarrow> ('n vrow, bool) expr) \<Rightarrow> ('n, 'z) vtable_scheme
     \<Rightarrow> string \<Rightarrow> string \<Rightarrow> error + ('n vrow, 'n dval) field_check" where
  "compare_entry cmp t check_field_left check_field_right =
     bind_err (info_field t check_field_left) (\<lambda>l.
     bind_err (info_field t check_field_right) (\<lambda>r.
       Inr \<lparr>expr = cmp l r, agg_func = agg_count_where,
            display_fields = [(check_field_left, \<lambda>row. Num (l row)),
                              (check_field_right, \<lambda>row. Num (r row))]\<rparr>))"

subsection \<open>Subset frequencies against the whole callset\<close>

definition subset_freq_checks ::
  "('n, 'z) vtable_scheme \<Rightarrow> string list \<Rightarrow> string \<Rightarrow> bool \<Rightarrow> string list
     \<Rightarrow> ('n dval, (string, ('n vrow, 'n dval) field_check) dict) run" where
  "subset_freq_checks t subsets delimiter metric_first_field metrics =
     for_each subsets (\<lambda>subset.
       if subset \<noteq> [] then
         for_each metrics (\<lambda>metric.
           for_each [''adj'', ''raw''] (\<lambda>group field_check_expr.
             then_run (emit [Log_comparing subset group metric]) (\<lambda>_.
               let check_field_left = metric @ delimiter @ group;
                   check_field_right =
                     (if metric_first_field
                      then metric @ delimiter @ subset @ delimiter @ group
                      else subset @ delimiter @ metric @ delimiter @ group)
               in register (check_field_left @ '' != '' @ check_field_right)
                    (compare_entry hl_eq t check_field_left check_field_right)
                    field_check_expr)))
       else (\<lambda>field_check_expr. ([], Inr field_check_expr))) []"

definition compare_subset_freqs ::
  "('n, 'z) vtable_scheme \<Rightarrow> string list \<Rightarrow> bool \<Rightarrow> bool \<Rightarrow> string \<Rightarrow> bool \<Rightarrow> string list
     \<Rightarrow> ('n dval, unit) run" where
  "compare_subset_freqs t subsets verbose show_percent_sites delimiter metric_first_field metrics =
     then_run (subset_freq_checks t subsets delimiter metric_first_field metrics)
       (\<lambda>field_check_expr.
     then_run (generic_field_check_loop t field_check_expr verbose show_percent_sites None) (\<lambda>_.
     then_run ([], info_field t (''AC'' @ delimiter @ ''raw'')) (\<lambda>ac_raw.
       emit [Engine_aggregate,
             Log_total_defined_raw_ac (agg_count_where (hl_is_defined ac_raw) (rows t))])))"

subsection \<open>Raw against adj call statistics\<close>

text \<open>
  The builder of \<^verbatim>\<open>check_raw_and_adj_callstats\<close> is written as a function of the dict it fills;
  the check starts it on the empty dict.
\<close>

definition defined_entry ::
  "(('n vrow, 'n) expr \<Rightarrow> ('n vrow, 'n) expr \<Rightarrow> ('n vrow, bool) expr) \<Rightarrow> ('n, 'z) vtable_scheme
     \<Rightarrow> string \<Rightarrow> string \<Rightarrow> error + ('n vrow, 'n dval) field_check" where
  "defined_entry cond t an_field check_field =
     bind_err (info_field t an_field) (\<lambda>an.
     bind_err (info_field t check_field) (\<lambda>cf.
       Inr \<lparr>expr = cond an cf, agg_func = agg_count_where,
            display_fields = [(an_field, \<lambda>row. Num (an row)),
                              (check_field, \<lambda>row. Num (cf row))]\<rparr>))"

definition raw_adj_checks ::
  "('n::linordered_idom, 'z) vtable_scheme \<Rightarrow> string list \<Rightarrow> string \<Rightarrow> bool
     \<Rightarrow> (string, ('n vrow, 'n dval) field_check) dict
     \<Rightarrow> ('n dval, (string, ('n vrow, 'n dval) field_check) dict) run" where
  "raw_adj_checks t subsets delimiter metric_first_field field_check_expr =
     then_run
       (for_each [''raw'', ''adj''] (\<lambda>group field_check_expr.
          then_run
            (for_each [''AC'', ''nhomalt''] (\<lambda>subfield.
               let check_field = subfield @ delimiter @ group;
                   an_field = ''AN'' @ delimiter @ group
               in register
                    (check_field @ '' defined when AN defined and missing when AN missing'')
                    (defined_entry
                       (\<lambda>an cf. hl_if_else (hl_is_missing an) (hl_is_defined cf) (hl_is_missing cf))
                       t an_field check_field))
               field_check_expr)
            (\<lambda>field_check_expr.
          let check_field = ''AF'' @ delimiter @ group;
              an_field = ''AN'' @ delimiter @ group
          in
          then_run
            (register
               (check_field
                  @ '' defined when AN defined (and > 0) and missing when AN missing'')
               (defined_entry
                  (\<lambda>an cf. hl_if_else (hl_is_missing an) (hl_is_defined cf)
                              (hl_and (hl_gt an (hl_lit 0)) (hl_is_missing cf)))
                  t an_field check_field)
               field_check_expr)
            (register (check_field @ '' missing when AN 0'')
               (defined_entry (\<lambda>an cf. hl_and (hl_eq an (hl_lit 0)) (hl_is_defined cf))
                  t an_field check_field)))) field_check_expr)
       (\<lambda>field_check_expr.
     then_run
       (for_each [''AC'', ''AF''] (\<lambda>subfield field_check_expr.
          then_run
            (let check_field = subfield @ delimiter @ ''raw''
             in register (check_field @ '' > 0'')
                  (bind_err (info_field t check_field) (\<lambda>cf.
                     Inr \<lparr>expr = hl_le cf (hl_lit 0), agg_func = agg_count_where,
                          display_fields = [(check_field, \<lambda>row. Num (cf row))]\<rparr>))
                  field_check_expr)
            (let check_field = subfield @ delimiter @ ''adj''
             in register (check_field @ '' >= 0'')
                  (bind_err (info_field t check_field) (\<lambda>cf.
                   bind_err (table_filters t) (\<lambda>fs.
                     Inr \<lparr>expr = hl_lt cf (hl_lit 0), agg_func = agg_count_where,
                          display_fields = [(check_field, \<lambda>row. Num (cf row)),
                                            (''filters'', \<lambda>row. Filters (fs row))]\<rparr>)))))
          field_check_expr)
       (for_each [''AC'', ''AN'', ''nhomalt''] (\<lambda>subfield field_check_expr.
          then_run
            (let check_field_left = subfield @ delimiter @ ''raw'';
                 check_field_right = subfield @ delimiter @ ''adj''
             in register (check_field_left @ '' >= '' @ check_field_right)
                  (compare_entry hl_lt t check_field_left check_field_right)
                  field_check_expr)
            (for_each subsets (\<lambda>subset.
               let subset = (if subset \<noteq> [] then subset @ delimiter else subset);
                   field_check_label =
                     (if metric_first_field then subfield @ delimiter @ subset
                      else subset @ subfield @ delimiter);
                   check_field_left = field_check_label @ ''raw'';
                   check_field_right = field_check_label @ ''adj''
               in register (check_field_left @ '' >= '' @ check_field_right)
                    (compare_entry hl_lt t check_field_left check_field_right))))))"

definition check_raw_and_adj_callstats ::
  "('n::linordered_idom, 'z) vtable_scheme \<Rightarrow> string list \<Rightarrow> bool \<Rightarrow> string \<Rightarrow> bool
     \<Rightarrow> ('n dval, unit) run" where
  "check_raw_and_adj_callstats t subsets verbose delimiter metric_first_field =
     then_run (raw_adj_checks t subsets delimiter metric_first_field [])
       (\<lambda>field_check_expr. generic_field_check_loop t field_check_expr verbose False None)"

subsection \<open>Sums over label groups\<close>

text \<open>
  \<^verbatim>\<open>make_group_sum_expr_dict\<close> uses two things that the repository does not show.
  \<^verbatim>\<open>make_label_combos\<close> (of \<^verbatim>\<open>gnomad.utils.vcf\<close>) is a parameter: a function of the label groups
  and the delimiter that returns the label combinations or raises, and leaves its argument
  as it is. \<^verbatim>\<open>hl.sum\<close> of a non-empty list of expressions is their sum at every row, missing
  values left out; what the engine answers to an empty Python list is the parameter
  \<open>hl_sum_empty\<close>. (An empty Python list has no element type for the engine to go by, and the
  type check of \<^verbatim>\<open>hl.sum\<close> refuses it with a TypeError: the value \<open>Inl TypeError\<close> of the
  parameter.)
\<close>

type_synonym label_groups = "(string, string list) dict"

text \<open>\<^verbatim>\<open>delimiter.join(xs)\<close>.\<close>

fun join :: "string \<Rightarrow> string list \<Rightarrow> string" where
  "join d [] = []"
| "join d [x] = x"
| "join d (x # y # ys) = x @ d @ join d (y # ys)"

text \<open>
  \<^verbatim>\<open>sorted(keys, key=lambda x: sort_order.index(x))\<close>: \<^verbatim>\<open>index\<close> raises ValueError on a key
  that is not in the list; the sort is stable.
\<close>

fun index_of :: "'a list \<Rightarrow> 'a \<Rightarrow> nat" where
  "index_of [] x = 0"
| "index_of (y # ys) x = (if x = y then 0 else Suc (index_of ys x))"

definition sorted_by_index :: "string list \<Rightarrow> string list \<Rightarrow> error + string list" where
  "sorted_by_index sort_order keys =
     (if list_all (\<lambda>k. k \<in> set sort_order) keys
      then Inr (sort_key (index_of sort_order) keys)
      else Inl ValueError)"

definition hl_sum ::
  "error + ('r, 'n::linordered_idom) expr \<Rightarrow> ('r, 'n) expr list \<Rightarrow> error + ('r, 'n) expr" where
  "hl_sum hl_sum_empty es =
     (if es = [] then hl_sum_empty
      else Inr (\<lambda>r. Some (sum_list (map (\<lambda>e. case e r of None \<Rightarrow> 0 | Some x \<Rightarrow> x) es))))"

text \<open>The inner loop over the label combinations: the expressions to sum, in order.\<close>

definition sum_group_exprs ::
  "('n, 'z) vtable_scheme \<Rightarrow> string \<Rightarrow> string list \<Rightarrow> ('n dval, ('n vrow, 'n) expr list) run" where
  "sum_group_exprs t field_prefix label_combos =
     for_each label_combos (\<lambda>label sum_group_exprs.
       let field = field_prefix @ label in
       if field \<in> set (info_fields t)
       then then_run ([], info_field t field) (\<lambda>e. ([], Inr (sum_group_exprs @ [e])))
       else ([Log_warning field], Inr sum_group_exprs)) []"

definition make_group_sum_expr_dict ::
  "(label_groups \<Rightarrow> string \<Rightarrow> error + string list) \<Rightarrow> error + ('n vrow, 'n) expr
     \<Rightarrow> ('n::linordered_idom, 'z) vtable_scheme \<Rightarrow> string \<Rightarrow> label_groups \<Rightarrow> string list
     \<Rightarrow> string \<Rightarrow> bool \<Rightarrow> string list
     \<Rightarrow> label_groups \<times> ('n dval, (string, ('n vrow, 'n dval) field_check) dict) run" where
  "make_group_sum_expr_dict make_label_combos hl_sum_empty t subset_arg label_groups sort_order
       delimiter metric_first_field metrics =
     (let subset = (if subset_arg \<noteq> [] then subset_arg @ delimiter else subset_arg) in
      case make_label_combos label_groups delimiter of
        Inl e \<Rightarrow> (label_groups, ([], Inl e))
      | Inr label_combos \<Rightarrow>
         (case dict_pop label_groups ''group'' of
            Inl e \<Rightarrow> (label_groups, ([], Inl e))
          | Inr (groups, label_groups) \<Rightarrow>
             (label_groups,
              (case groups of
                 [] \<Rightarrow> ([], Inl IndexError)
               | grp # _ \<Rightarrow>
                  then_run ([], sorted_by_index sort_order (map fst label_groups)) (\<lambda>keys.
                  let sum_group = join delimiter keys in
                  then_run
                    (for_each metrics (\<lambda>metric annot_dict.
                       let field_prefix =
                             (if metric_first_field then metric @ delimiter @ subset
                              else subset @ metric @ delimiter)
                       in then_run (sum_group_exprs t field_prefix label_combos) (\<lambda>exprs.
                            register
                              (''sum'' @ delimiter @ field_prefix @ grp @ delimiter @ sum_group)
                              (hl_sum hl_sum_empty exprs) annot_dict)) [])
                    (\<lambda>annot_dict.
                  for_each metrics (\<lambda>metric.
                    let check_field_left =
                          (if metric_first_field then metric @ delimiter @ subset @ grp
                           else subset @ metric @ delimiter @ grp);
                        check_field_right =
                          ''sum'' @ delimiter @ check_field_left @ delimiter @ sum_group
                    in register (check_field_left @ '' = '' @ check_field_right)
                         (bind_err (info_field t check_field_left) (\<lambda>l.
                          bind_err (dict_get annot_dict check_field_right) (\<lambda>r.
                            Inr \<lparr>expr = hl_ne l r, agg_func = agg_count_where,
                                 display_fields =
                                   [(check_field_left, \<lambda>row. Num (l row)),
                                    (check_field_right, \<lambda>row. Num (r row))]\<rparr>)))) []))))))"




fun is_warning :: "'v event \<Rightarrow> bool" where
  "is_warning (Log_warning f) = True"
| "is_warning _ = False"

subsection \<open>Sex chromosomes\<close>

text \<open>Python's \<^verbatim>\<open>pat in s\<close> and \<^verbatim>\<open>s.replace(pat, "")\<close> on strings.\<close>

fun str_contains :: "string \<Rightarrow> string \<Rightarrow> bool" where
  "str_contains pat [] = (pat = [])"
| "str_contains pat (c # cs) = (take (length pat) (c # cs) = pat \<or> str_contains pat cs)"

function str_remove :: "string \<Rightarrow> string \<Rightarrow> string" where
  "str_remove pat [] = []"
| "str_remove pat (c # cs) =
     (if pat \<noteq> [] \<and> take (length pat) (c # cs) = pat
      then str_remove pat (drop (length pat) (c # cs))
      else c # str_remove pat cs)"
  by pat_completeness auto
termination
  by (relation "measure (\<lambda>(pat, s). length s)") auto

text \<open>
  \<^verbatim>\<open>hl.filter_intervals(t, [hl.parse_locus_interval(c)])\<close> keeps the rows on contig \<open>c\<close>; the
  interval does not parse when the reference genome has no such contig.
  \<^verbatim>\<open>locus.in_x_nonpar()\<close>: on an X contig and in none of the pseudo-autosomal intervals.
\<close>

definition filter_intervals ::
  "('n, 'z) vtable_scheme \<Rightarrow> string \<Rightarrow> error + ('n, 'z) vtable_scheme" where
  "filter_intervals t c =
     (if c \<in> set (genome_contigs t)
      then Inr (t\<lparr>rows := filter (\<lambda>r. contig r = c) (rows t)\<rparr>)
      else Inl HailException)"

definition in_x_nonpar :: "('n, 'z) vtable_scheme \<Rightarrow> 'n vrow \<Rightarrow> bool" where
  "in_x_nonpar t r \<longleftrightarrow>
     contig r \<in> set (x_contigs t)
     \<and> \<not> list_ex (\<lambda>(c, first, stop). c = contig r \<and> first \<le> position r \<and> position r < stop)
           (par t)"

text \<open>
  \<^verbatim>\<open>hl.agg.filter(hl.is_defined(e), hl.agg.take(e, 1))\<close>: the first defined value, if any.
\<close>

definition agg_take_defined :: "('r, 'n) expr \<Rightarrow> 'r list \<Rightarrow> 'n dval list" where
  "agg_take_defined e rs = take 1 (map (\<lambda>r. Num (e r)) (filter (holds (hl_is_defined e)) rs))"

text \<open>The block of \<^verbatim>\<open>check_sex_chr_metrics\<close> that runs when chrY is among the contigs.\<close>

definition y_variant_checks ::
  "('n, 'z) vtable_scheme \<Rightarrow> string list \<Rightarrow> ('n dval, unit) run" where
  "y_variant_checks t xx_metrics =
     then_run (emit [Log_info ''Check values of XX metrics for Y variants are NA:'']) (\<lambda>_.
     then_run ([], filter_intervals t ''chrY'') (\<lambda>t_y.
     then_run (for_each xx_metrics (\<lambda>metric. register metric (info_field t_y metric)) [])
       (\<lambda>metrics_values.
     then_run ([Engine_aggregate],
               Inr (map (\<lambda>(metric, e). (metric, agg_any (hl_is_defined e) (rows t_y)))
                      metrics_values))
       (\<lambda>output.
          run_each (\<lambda>(metric, val).
              if val then
                then_run ([], info_field t_y metric) (\<lambda>e.
                  emit [Engine_aggregate, Log_y_failed metric (agg_take_defined e (rows t_y))])
              else emit [Log_y_passed metric])
            output))))"

definition x_nonpar_checks ::
  "('n, 'z) vtable_scheme \<Rightarrow> string list \<Rightarrow> string
     \<Rightarrow> (string, ('n vrow, 'n dval) field_check) dict
     \<Rightarrow> ('n dval, (string, ('n vrow, 'n dval) field_check) dict) run" where
  "x_nonpar_checks t_xnonpar xx_metrics delimiter =
     for_each xx_metrics (\<lambda>metric.
       let standard_field = str_remove (delimiter @ ''XX'') metric;
           check_field_left = metric;
           check_field_right = standard_field
       in register (check_field_left @ '' == '' @ check_field_right)
            (compare_entry hl_ne t_xnonpar check_field_left check_field_right))"

definition check_sex_chr_metrics ::
  "('n, 'z) vtable_scheme \<Rightarrow> string list \<Rightarrow> string list \<Rightarrow> bool \<Rightarrow> string
     \<Rightarrow> ('n dval, unit) run" where
  "check_sex_chr_metrics t info_metrics contigs verbose delimiter =
     (let xx_metrics = filter (str_contains (delimiter @ ''XX'')) info_metrics in
      then_run
        (if ''chrY'' \<in> set contigs then y_variant_checks t xx_metrics else emit [])
        (\<lambda>_.
      then_run ([], filter_intervals t ''chrX'') (\<lambda>t_x.
      let t_xnonpar = table_filter t_x (\<lambda>r. Some (in_x_nonpar t_x r)) in
      then_run
        (emit [Engine_count, Log_x_nonpar (table_count t_xnonpar),
               Log_info ''Check (nhomalt == nhomalt_xx) for X nonpar variants:''])
        (\<lambda>_.
      let xx_metrics = filter (str_contains ''nhomalt'') xx_metrics in
      then_run (x_nonpar_checks t_xnonpar xx_metrics delimiter []) (\<lambda>field_check_expr.
        generic_field_check_loop t_xnonpar field_check_expr verbose False None)))))"

text \<open>
  The table of the repository's test of the sex-chromosome checks: two rows on chrX, the
  first outside the pseudo-autosomal intervals of GRCh38, and two rows on chrY.
\<close>

definition sex_chr_row :: "string \<Rightarrow> int \<Rightarrow> (string \<times> int) list \<Rightarrow> int vrow" where
  "sex_chr_row c pos vals = \<lparr>contig = c, position = pos, info = map_of vals, filters = []\<rparr>"

definition sex_chr_table :: "int vtable" where
  "sex_chr_table =
     \<lparr>rows =
        [sex_chr_row ''chrX'' 9000
           [(''nhomalt'', 3), (''nhomalt_XX'', 2), (''nhomalt_amr'', 5), (''nhomalt_amr_XX'', 1),
            (''AC'', 6), (''AC_XX'', 6)],
         sex_chr_row ''chrX'' 1000000
           [(''nhomalt'', 5), (''nhomalt_XX'', 5), (''nhomalt_amr'', 5), (''nhomalt_amr_XX'', 5),
            (''AC'', 10), (''AC_XX'', 10)],
         sex_chr_row ''chrY'' 1000000 [(''nhomalt'', 5), (''AC'', 6)],
         sex_chr_row ''chrY'' 2000000 [(''nhomalt'', 5), (''nhomalt_XX'', 3), (''AC'', 6)]],
      row_fields = [''locus'', ''info''],
      info_fields = [''nhomalt'', ''nhomalt_XX'', ''nhomalt_amr'', ''nhomalt_amr_XX'', ''AC'',
                     ''AC_XX''],
      genome_contigs = [''chr1'', ''chrX'', ''chrY''],
      x_contigs = [''chrX''],
      par = [(''chrX'', 10001, 2781480), (''chrX'', 155701383, 156030896),
             (''chrY'', 10001, 2781480), (''chrY'', 56887903, 57217416)]\<rparr>"

definition sex_chr_metrics :: "string list" where
  "sex_chr_metrics =
     [''nhomalt'', ''nhomalt_XX'', ''nhomalt_amr'', ''nhomalt_amr_XX'', ''AC'', ''AC_XX'']"

text \<open>
  A row on chrX outside the pseudo-autosomal intervals that has the overall homozygote
  count and no XX count, in a table of its own.
\<close>

definition missing_xx_row :: "int vrow" where
  "missing_xx_row = sex_chr_row ''chrX'' 9000 [(''nhomalt'', 3), (''AC'', 6), (''AC_XX'', 6)]"

definition missing_xx_table :: "int vtable" where
  "missing_xx_table = sex_chr_table\<lparr>rows := [missing_xx_row]\<rparr>"

text \<open>
  A delimiter and two metric names with blanks for which the two checks get the same label:
  the second name is the first with \<open>'' == nhomaltXX''\<close> appended, and taking the tag out of
  it takes out what was appended together with the end of the first name.
\<close>

definition blank_delimiter :: string where
  "blank_delimiter = ''nhomaltXX ==  == nhomalt''"

definition blank_metric :: string where
  "blank_metric = blank_delimiter @ ''XX'' @ ''nhomaltXX == nhomaltXX == ''"

definition blank_metric_longer :: string where
  "blank_metric_longer = blank_metric @ '' == nhomaltXX''"

definition blank_table :: "int vtable" where
  "blank_table =
     sex_chr_table
       \<lparr>rows := [sex_chr_row ''chrX'' 9000
                   [(blank_metric, 1), (''nhomaltXX == nhomaltXX == '', 2),
                    (blank_metric_longer, 4), (''nhomaltXX == '', 4)]],
        info_fields := [blank_metric, ''nhomaltXX == nhomaltXX == '',
                        blank_metric_longer, ''nhomaltXX == '']\<rparr>"

text \<open>The lines that the chrY block prints about one metric.\<close>

fun is_y_line :: "string \<Rightarrow> 'v event \<Rightarrow> bool" where
  "is_y_line m (Log_y_failed m' vs) = (m' = m)"
| "is_y_line m (Log_y_passed m') = (m' = m)"
| "is_y_line m _ = False"

definition y_lines_for :: "string \<Rightarrow> ('v, 'a) run \<Rightarrow> 'v event list" where
  "y_lines_for m r = filter (is_y_line m) (fst r)"

section \<open>Nested values: missingness and unfurling\<close>

text \<open>
  The values of the engine with their types. Any value may be missing, also inside an
  array, a set or a struct: a place for a value holds \<open>None\<close> or a value. A set is given by
  the list of its elements. An expression has its type from the table's schema, and
  \<^verbatim>\<open>check_missingness_of_struct\<close> goes by that type, not by the values.
\<close>

datatype htype = TInt | TFloat | TStr | TArray htype | TSet htype
  | TStruct "(string \<times> htype) list"

datatype hval = HInt int | HFloat rat | HStr string
  | HArray "hval option list" | HSet "hval option list"
  | HStruct "(string \<times> hval option) list"

text \<open>A nested Python dict with values at its leaves.\<close>

datatype 'a mtree = Leaf 'a | Node "(string \<times> 'a mtree) list"

text \<open>\<^verbatim>\<open>struct_expr[key]\<close>: missing when the struct is.\<close>

definition hl_field :: "('r, hval) expr \<Rightarrow> string \<Rightarrow> ('r, hval) expr" where
  "hl_field e key = (\<lambda>r. case e r of
       Some (HStruct fs) \<Rightarrow> (case map_of fs key of Some v \<Rightarrow> v | None \<Rightarrow> None)
     | _ \<Rightarrow> None)"

text \<open>
  \<^verbatim>\<open>collection.all(f)\<close>: missing on a missing collection; over the elements, false wins over
  missing.
\<close>

definition kleene_all :: "bool option list \<Rightarrow> bool option" where
  "kleene_all bs = (if Some False \<in> set bs then Some False
                    else if None \<in> set bs then None else Some True)"

definition hl_all :: "(hval option \<Rightarrow> bool option) \<Rightarrow> ('r, hval) expr \<Rightarrow> ('r, bool) expr" where
  "hl_all f e = (\<lambda>r. case e r of
       Some (HArray xs) \<Rightarrow> kleene_all (map f xs)
     | Some (HSet xs) \<Rightarrow> kleene_all (map f xs)
     | _ \<Rightarrow> None)"

fun check_missingness_of_struct ::
  "htype \<Rightarrow> ('r, hval) expr \<Rightarrow> string \<Rightarrow> ('r list \<Rightarrow> rat option) mtree" where
  "check_missingness_of_struct (TStruct fs) struct_expr prefix =
     Node (map (\<lambda>(key, ty). (prefix @ ''.'' @ key,
                  check_missingness_of_struct ty (hl_field struct_expr key) (prefix @ ''.'' @ key)))
             fs)"
| "check_missingness_of_struct (TArray ty) struct_expr prefix =
     Leaf (agg_fraction (hl_or_else (hl_all (\<lambda>x. Some (x = None)) struct_expr) True))"
| "check_missingness_of_struct (TSet ty) struct_expr prefix =
     Leaf (agg_fraction (hl_or_else (hl_all (\<lambda>x. Some (x = None)) struct_expr) True))"
| "check_missingness_of_struct ty struct_expr prefix =
     Leaf (agg_fraction (hl_is_missing struct_expr))"

text \<open>\<^verbatim>\<open>ht.aggregate(hl.struct(**metric_missingness))\<close>: every aggregation at the leaves, at once.\<close>

definition aggregate_tree :: "('r, 'z) table_scheme \<Rightarrow> ('r list \<Rightarrow> 'a) mtree \<Rightarrow> 'a mtree" where
  "aggregate_tree ht tree = map_mtree (\<lambda>agg. agg (rows ht)) tree"

text \<open>
  \<^verbatim>\<open>flatten_missingness_struct\<close>: a leaf is stored under its key, a nested dict is flattened and
  merged in with \<^verbatim>\<open>dict.update\<close>.
\<close>

fun flatten_value :: "string \<Rightarrow> 'a mtree \<Rightarrow> (string, 'a) dict \<Rightarrow> (string, 'a) dict" where
  "flatten_value key (Leaf x) missingness_dict = AList.update key x missingness_dict"
| "flatten_value key (Node items) missingness_dict =
     fold (\<lambda>(k, v). AList.update k v) (fold (\<lambda>(k, v). flatten_value k v) items [])
       missingness_dict"

definition flatten_missingness_struct :: "'a mtree \<Rightarrow> error + (string, 'a) dict" where
  "flatten_missingness_struct missingness_struct =
     (case missingness_struct of
        Node items \<Rightarrow> Inr (fold (\<lambda>(k, v). flatten_value k v) items [])
      | Leaf x \<Rightarrow> Inl AttributeError)"

text \<open>
  The rule of the specification for a leaf that is an array or a set: missing when absent,
  empty, or with missing elements only.
\<close>

fun collection_counts_missing :: "hval option \<Rightarrow> bool" where
  "collection_counts_missing None = True"
| "collection_counts_missing (Some (HArray xs)) = list_all (\<lambda>x. x = None) xs"
| "collection_counts_missing (Some (HSet xs)) = list_all (\<lambda>x. x = None) xs"
| "collection_counts_missing (Some _) = False"

fun is_collection :: "hval option \<Rightarrow> bool" where
  "is_collection None = True"
| "is_collection (Some (HArray xs)) = True"
| "is_collection (Some (HSet xs)) = True"
| "is_collection (Some _) = False"

definition fraction_of :: "('r \<Rightarrow> bool) \<Rightarrow> 'r list \<Rightarrow> rat" where
  "fraction_of P rs = of_nat (length (filter P rs)) / of_nat (length rs)"

text \<open>The table of the repository's test of the missingness of a struct, and its field \<open>s\<close>.\<close>

definition struct_s_type :: htype where
  "struct_s_type =
     TStruct [(''a'', TInt), (''b'', TStr),
              (''c'', TStruct [(''d'', TArray TStr), (''e'', TStr), (''f'', TSet TStr)])]"

definition struct_row ::
  "int \<Rightarrow> int \<Rightarrow> hval option \<Rightarrow> hval option \<Rightarrow> hval option \<Rightarrow> hval option \<Rightarrow> hval" where
  "struct_row idx a b d e f =
     HStruct [(''idx'', Some (HInt idx)),
              (''s'', Some (HStruct [(''a'', Some (HInt a)), (''b'', b),
                         (''c'', Some (HStruct [(''d'', d), (''e'', e), (''f'', f)]))]))]"

definition struct_table :: "hval table" where
  "struct_table =
     \<lparr>rows =
        [struct_row 0 1 (Some (HStr ''value1'')) (Some (HArray [None, None]))
           (Some (HStr ''test1'')) (Some (HSet [Some (HStr ''v1''), Some (HStr ''v2'')])),
         struct_row 1 2 (Some (HStr ''value2'')) (Some (HArray [Some (HStr ''not missing''), None]))
           None (Some (HSet [Some (HStr ''v3''), None])),
         struct_row 2 3 None None None (Some (HSet [])),
         struct_row 3 4 (Some (HStr ''value3''))
           (Some (HArray [Some (HStr ''foo''), Some (HStr ''bar'')]))
           (Some (HStr ''test2'')) (Some (HSet [])),
         struct_row 4 5 (Some (HStr ''value4'')) (Some (HArray []))
           (Some (HStr ''test3'')) (Some (HSet []))]\<rparr>"

definition struct_s :: "(hval, hval) expr" where
  "struct_s = hl_field Some ''s''"

text \<open>
  A table of structs with its schema and its globals. The globals that matter here are the
  index dicts, from a label to a position in an array.
\<close>

record htable = "hval table" +
  row_type :: "(string \<times> htype) list"
  globals :: "(string \<times> (string, int) dict) list"

text \<open>
  An expression that may fail when it is evaluated at a row. \<^verbatim>\<open>a[i]\<close> on an array: missing on
  a missing array, from the end for a negative index, an error of the engine when there is
  no such position. \<^verbatim>\<open>e[f]\<close> on the struct that such an expression gives.
\<close>

definition hl_index :: "('r, hval) expr \<Rightarrow> int \<Rightarrow> 'r \<Rightarrow> error + hval option" where
  "hl_index a i = (\<lambda>r. case a r of
       Some (HArray xs) \<Rightarrow>
         (if 0 \<le> i \<and> i < int (length xs) then Inr (xs ! nat i)
          else if i < 0 \<and> - i \<le> int (length xs) then Inr (xs ! nat (int (length xs) + i))
          else Inl HailException)
     | _ \<Rightarrow> Inr None)"

definition hl_get_field ::
  "('r \<Rightarrow> error + hval option) \<Rightarrow> string \<Rightarrow> 'r \<Rightarrow> error + hval option" where
  "hl_get_field e f = (\<lambda>r. case e r of Inl err \<Rightarrow> Inl err
                            | Inr v \<Rightarrow> Inr (hl_field (\<lambda>_. v) f r))"

text \<open>A \<^verbatim>\<open>for\<close> loop that updates a dict and prints nothing: it stops at the first exception.\<close>

fun try_each :: "'a list \<Rightarrow> ('a \<Rightarrow> 's \<Rightarrow> error + 's) \<Rightarrow> 's \<Rightarrow> error + 's" where
  "try_each [] body s = Inr s"
| "try_each (x # xs) body s = bind_err (body x s) (try_each xs body)"

text \<open>
  \<^verbatim>\<open>ht[array][0].keys()\<close>: the field names of the structs in the array. For a field that is not
  an array of structs the call fails, in all cases but a struct of structs, which Python
  indexes by position; here all of them are an error, and no statement below is about them.
\<close>

fun element_struct_keys :: "htype \<Rightarrow> error + string list" where
  "element_struct_keys (TArray (TStruct fs)) = Inr (map fst fs)"
| "element_struct_keys (TArray ty) = Inl AttributeError"
| "element_struct_keys ty = Inl TypeError"

text \<open>
  \<^verbatim>\<open>hl.eval(d).items()\<close> for a dict of the engine: the engine keeps the entries of a dict in
  the order of their keys, and that is the order in which the evaluated dict gives them.
  The keys are strings, in the order of the dictionary by the codes of their characters.
\<close>

definition hl_eval_dict :: "(string, 'v) dict \<Rightarrow> (string \<times> 'v) list" where
  "hl_eval_dict d = sort_key fst d"

definition unfurl_array_annotations ::
  "htable \<Rightarrow> (string, string) dict \<Rightarrow> error + (string, hval \<Rightarrow> error + hval option) dict" where
  "unfurl_array_annotations ht indexed_array_annotations =
     try_each indexed_array_annotations
       (\<lambda>(array, array_index_dict) expr_dict.
          case map_of (row_type ht) array of
            None \<Rightarrow> Inl ValueError
          | Some array_type \<Rightarrow>
              (case map_of (globals ht) array_index_dict of
                 None \<Rightarrow> Inl ValueError
               | Some index_dict \<Rightarrow>
                   try_each (hl_eval_dict index_dict)
                     (\<lambda>(k, i) expr_dict.
                        bind_err (element_struct_keys array_type)
                          (\<lambda>keys. Inr (fold (\<lambda>f. AList.update (f @ ''_'' @ k)
                                               (hl_get_field (hl_index (hl_field Some array) i) f))
                                          keys expr_dict)))
                     expr_dict))
       []"

text \<open>
  The dict of the specification: one expression for each pair of an entry of the index dict
  and a field of the structs, named by the field, an underscore and the key, and giving
  that field of the element at the key's position.
\<close>

definition one_per_pair ::
  "string \<Rightarrow> string list \<Rightarrow> (string, int) dict \<Rightarrow> (string, hval \<Rightarrow> error + hval option) dict" where
  "one_per_pair array keys index_dict =
     concat (map (\<lambda>(k, i). map (\<lambda>f. (f @ ''_'' @ k,
                                        hl_get_field (hl_index (hl_field Some array) i) f)) keys)
               index_dict)"

text \<open>
  \<^verbatim>\<open>ht.annotate(**result).collect()\<close>, as far as the new fields go: the values of the unfurled
  expressions at each row; one failing evaluation fails the whole.
\<close>

fun all_or_error :: "(error + 'a) list \<Rightarrow> error + 'a list" where
  "all_or_error [] = Inr []"
| "all_or_error (x # xs) =
     bind_err x (\<lambda>v. bind_err (all_or_error xs) (\<lambda>vs. Inr (v # vs)))"

definition collect_annotated ::
  "htable \<Rightarrow> (string, hval \<Rightarrow> error + hval option) dict
     \<Rightarrow> error + (string \<times> hval option) list list" where
  "collect_annotated ht result =
     all_or_error (map (\<lambda>row. all_or_error
                          (map (\<lambda>(name, e). bind_err (e row) (\<lambda>v. Inr (name, v))) result))
                     (rows ht))"

text \<open>The table of the repository's test of the unfurling.\<close>

definition freq_element :: "int \<Rightarrow> rat \<Rightarrow> int option \<Rightarrow> int option \<Rightarrow> hval option" where
  "freq_element ac af an_eas an_sas =
     Some (HStruct [(''AC'', Some (HInt ac)), (''AF'', Some (HFloat af)),
                    (''AN_eas'', map_option HInt an_eas), (''AN_sas'', map_option HInt an_sas)])"

definition freq_row :: "int \<Rightarrow> hval option list \<Rightarrow> hval" where
  "freq_row idx freq = HStruct [(''idx'', Some (HInt idx)), (''freq'', Some (HArray freq))]"

definition freq_table :: htable where
  "freq_table =
     \<lparr>rows =
        [freq_row 0 [freq_element 5 (1 / 10) (Some 20) (Some 3),
                     freq_element 10 (5 / 100) (Some 5) None],
         freq_row 1 [freq_element 6 (8 / 100) None (Some 4),
                     freq_element 8 (1 / 2) None None],
         freq_row 2 [freq_element 65 (18 / 100) None (Some 2),
                     freq_element 88 (1 / 5) None None],
         freq_row 3 [freq_element 8 (8 / 100) (Some 16) (Some 2), None]],
      row_type =
        [(''idx'', TInt),
         (''freq'', TArray (TStruct [(''AC'', TInt), (''AF'', TFloat),
                                     (''AN_eas'', TInt), (''AN_sas'', TInt)]))],
      globals = [(''freq_index_dict'', [(''adj'', 0), (''raw'', 1)])]\<rparr>"

text \<open>
  A table where a field name with a label and a shorter field name with a longer label
  spell the same name.
\<close>

definition overlap_table :: htable where
  "overlap_table =
     \<lparr>rows =
        [freq_row 0 [Some (HStruct [(''AN'', Some (HInt 100)), (''AN_eas'', Some (HInt 40))]),
                     Some (HStruct [(''AN'', Some (HInt 120)), (''AN_eas'', Some (HInt 7))])]],
      row_type =
        [(''idx'', TInt),
         (''freq'', TArray (TStruct [(''AN'', TInt), (''AN_eas'', TInt)]))],
      globals = [(''freq_index_dict'', [(''eas_adj'', 0), (''adj'', 1)])]\<rparr>"

text \<open>The table of the test with an index dict that points behind the arrays of two elements.\<close>

definition short_array_table :: htable where
  "short_array_table = freq_table\<lparr>globals := [(''freq_index_dict'', [(''adj'', 0), (''raw'', 2)])]\<rparr>"

section \<open>Reading a run\<close>

text \<open>The verdict line that the reporter prints for a description and a failure count.\<close>

definition verdict_of :: "string \<Rightarrow> int \<Rightarrow> verdict" where
  "verdict_of d n = (if 0 < n then FAILED n d else PASSED d)"

fun verdict_label :: "verdict \<Rightarrow> string" where
  "verdict_label (PASSED d) = d"
| "verdict_label (FAILED n d) = d"

text \<open>The verdicts that a run printed for one description.\<close>

definition verdicts_for :: "string \<Rightarrow> ('v, 'a) run \<Rightarrow> verdict list" where
  "verdicts_for d m = filter (\<lambda>v. verdict_label v = d) (verdicts (fst m))"

text \<open>
  Two ways to describe a piece of a builder, as a function from the dict before to the run
  after: every dict it returns is the dict before with the pairs of \<open>W\<close> assigned in some
  order; and it prints no verdict.
\<close>

definition assigned :: "('k \<times> 'c) list \<Rightarrow> ('k, 'c) dict \<Rightarrow> ('k, 'c) dict" where
  "assigned kvs d = fold (\<lambda>(k, v). AList.update k v) kvs d"

definition writes :: "(('k, 'c) dict \<Rightarrow> ('v, ('k, 'c) dict) run) \<Rightarrow> ('k \<times> 'c) set \<Rightarrow> bool" where
  "writes body W \<longleftrightarrow>
     (\<forall>s s'. snd (body s) = Inr s' \<longrightarrow> (\<exists>kvs. s' = assigned kvs s \<and> set kvs = W))"

definition registered :: "'k \<Rightarrow> error + 'c \<Rightarrow> ('k \<times> 'c) set" where
  "registered k entry = {(k, v) | v. entry = Inr v}"

definition silent :: "('s \<Rightarrow> ('v, 'a) run) \<Rightarrow> bool" where
  "silent body \<longleftrightarrow> (\<forall>s. fst (body s) = [])"

definition no_verdict :: "('s \<Rightarrow> ('v, 'a) run) \<Rightarrow> bool" where
  "no_verdict body \<longleftrightarrow> (\<forall>s. verdicts (fst (body s)) = [])"

text \<open>The two fields that the subset-frequency check compares, by name.\<close>

definition sf_left :: "string \<Rightarrow> string \<Rightarrow> string \<Rightarrow> string" where
  "sf_left d metric grp = metric @ d @ grp"

definition sf_right :: "string \<Rightarrow> bool \<Rightarrow> string \<Rightarrow> string \<Rightarrow> string \<Rightarrow> string" where
  "sf_right d mff sub metric grp =
     (if mff then metric @ d @ sub @ d @ grp else sub @ d @ metric @ d @ grp)"

text \<open>
  The pairs that the three parts of the builder of \<^verbatim>\<open>check_raw_and_adj_callstats\<close> assign:
  the checks of definedness, the checks of sign, and the checks of raw against adj.
\<close>

definition defined_pairs ::
  "('n::linordered_idom, 'z) vtable_scheme \<Rightarrow> string
     \<Rightarrow> (string \<times> ('n vrow, 'n dval) field_check) set" where
  "defined_pairs t d =
     (\<Union>g\<in>set [''raw'', ''adj''].
          (\<Union>sf\<in>set [''AC'', ''nhomalt''].
             registered ((sf @ d @ g) @ '' defined when AN defined and missing when AN missing'')
               (defined_entry
                  (\<lambda>an cf. hl_if_else (hl_is_missing an) (hl_is_defined cf) (hl_is_missing cf))
                  t (''AN'' @ d @ g) (sf @ d @ g)))
          \<union> (registered ((''AF'' @ d @ g)
                  @ '' defined when AN defined (and > 0) and missing when AN missing'')
               (defined_entry
                  (\<lambda>an cf. hl_if_else (hl_is_missing an) (hl_is_defined cf)
                              (hl_and (hl_gt an (hl_lit 0)) (hl_is_missing cf)))
                  t (''AN'' @ d @ g) (''AF'' @ d @ g))
             \<union> registered ((''AF'' @ d @ g) @ '' missing when AN 0'')
               (defined_entry (\<lambda>an cf. hl_and (hl_eq an (hl_lit 0)) (hl_is_defined cf))
                  t (''AN'' @ d @ g) (''AF'' @ d @ g))))"

definition sign_pairs ::
  "('n::linordered_idom, 'z) vtable_scheme \<Rightarrow> string
     \<Rightarrow> (string \<times> ('n vrow, 'n dval) field_check) set" where
  "sign_pairs t d =
     (\<Union>sf\<in>set [''AC'', ''AF''].
          registered ((sf @ d @ ''raw'') @ '' > 0'')
            (bind_err (info_field t (sf @ d @ ''raw'')) (\<lambda>cf.
               Inr \<lparr>expr = hl_le cf (hl_lit 0), agg_func = agg_count_where,
                    display_fields = [(sf @ d @ ''raw'', \<lambda>row. Num (cf row))]\<rparr>))
          \<union> registered ((sf @ d @ ''adj'') @ '' >= 0'')
            (bind_err (info_field t (sf @ d @ ''adj'')) (\<lambda>cf.
             bind_err (table_filters t) (\<lambda>fs.
               Inr \<lparr>expr = hl_lt cf (hl_lit 0), agg_func = agg_count_where,
                    display_fields = [(sf @ d @ ''adj'', \<lambda>row. Num (cf row)),
                                      (''filters'', \<lambda>row. Filters (fs row))]\<rparr>))))"

definition raw_adj_pairs ::
  "('n::linordered_idom, 'z) vtable_scheme \<Rightarrow> string list \<Rightarrow> string \<Rightarrow> bool
     \<Rightarrow> (string \<times> ('n vrow, 'n dval) field_check) set" where
  "raw_adj_pairs t subsets d mff =
     (\<Union>sf\<in>set [''AC'', ''AN'', ''nhomalt''].
          registered ((sf @ d @ ''raw'') @ '' >= '' @ (sf @ d @ ''adj''))
            (compare_entry hl_lt t (sf @ d @ ''raw'') (sf @ d @ ''adj''))
          \<union> (\<Union>s\<in>set subsets.
               registered
                 (((if mff then sf @ d @ (if s \<noteq> [] then s @ d else s)
                    else (if s \<noteq> [] then s @ d else s) @ sf @ d) @ ''raw'') @ '' >= '' @
                  ((if mff then sf @ d @ (if s \<noteq> [] then s @ d else s)
                    else (if s \<noteq> [] then s @ d else s) @ sf @ d) @ ''adj''))
                 (compare_entry hl_lt t
                    ((if mff then sf @ d @ (if s \<noteq> [] then s @ d else s)
                    else (if s \<noteq> [] then s @ d else s) @ sf @ d) @ ''raw'')
                    ((if mff then sf @ d @ (if s \<noteq> [] then s @ d else s)
                    else (if s \<noteq> [] then s @ d else s) @ sf @ d) @ ''adj''))))"

text \<open>A release table with one subset, \<^verbatim>\<open>hgdp\<close>, and three rows, for concrete runs.\<close>

definition callset_row :: "(string \<times> int) list \<Rightarrow> int vrow" where
  "callset_row vals = \<lparr>contig = ''chr1'', position = 1000, info = map_of vals, filters = []\<rparr>"

definition callset_table :: "int vtable" where
  "callset_table =
     \<lparr>rows =
        [callset_row [(''AC-adj'', 5), (''AC-raw'', 6), (''AN-adj'', 10), (''AN-raw'', 12),
                      (''nhomalt-adj'', 1), (''nhomalt-raw'', 1),
                      (''AC-hgdp-adj'', 5), (''AC-hgdp-raw'', 5), (''AN-hgdp-adj'', 8),
                      (''AN-hgdp-raw'', 9), (''nhomalt-hgdp-adj'', 1), (''nhomalt-hgdp-raw'', 1)],
         callset_row [(''AC-adj'', 7), (''AC-raw'', 7), (''AN-adj'', 10), (''AN-raw'', 12),
                      (''nhomalt-adj'', 2), (''nhomalt-raw'', 3),
                      (''AC-hgdp-adj'', 3), (''AC-hgdp-raw'', 2), (''AN-hgdp-adj'', 6),
                      (''AN-hgdp-raw'', 6), (''nhomalt-hgdp-adj'', 0), (''nhomalt-hgdp-raw'', 1)],
         callset_row [(''AC-adj'', 4), (''AC-raw'', 9), (''AN-adj'', 10), (''AN-raw'', 12),
                      (''nhomalt-adj'', 0), (''nhomalt-raw'', 2),
                      (''AC-hgdp-adj'', 1), (''AN-hgdp-adj'', 4),
                      (''AN-hgdp-raw'', 4), (''nhomalt-hgdp-adj'', 0), (''nhomalt-hgdp-raw'', 0)]],
      row_fields = [''locus'', ''info'', ''filters''],
      info_fields = [''AC-adj'', ''AC-raw'', ''AN-adj'', ''AN-raw'', ''nhomalt-adj'',
                     ''nhomalt-raw'', ''AF-adj'', ''AF-raw'', ''AC-hgdp-adj'', ''AC-hgdp-raw'',
                     ''AN-hgdp-adj'', ''AN-hgdp-raw'', ''nhomalt-hgdp-adj'', ''nhomalt-hgdp-raw''],
      genome_contigs = [''chr1'', ''chrX'', ''chrY''],
      x_contigs = [''chrX''],
      par = [(''chrX'', 10001, 2781480), (''chrX'', 155701383, 156030896)]\<rparr>"

text \<open>A row without a raw allele count, in a table of its own.\<close>

definition missing_raw_row :: "int vrow" where
  "missing_raw_row =
     callset_row [(''AC-adj'', 5), (''AN-adj'', 10), (''AN-raw'', 12),
                  (''nhomalt-adj'', 1), (''nhomalt-raw'', 1)]"

definition missing_raw_table :: "int vtable" where
  "missing_raw_table = callset_table\<lparr>rows := [missing_raw_row]\<rparr>"

text \<open>
  A table with the population fields of two populations out of three, and a stand-in for
  \<^verbatim>\<open>make_label_combos\<close> on one axis besides the group: the values of the other axis.
\<close>

definition pop_table :: "int vtable" where
  "pop_table =
     \<lparr>rows =
        [callset_row [(''AC-adj'', 5), (''AC-adj-afr'', 2), (''AC-adj-nfe'', 3),
                      (''AN-adj'', 10), (''AN-adj-afr'', 4), (''AN-adj-nfe'', 5)],
         callset_row [(''AC-adj'', 7), (''AC-adj-afr'', 7),
                      (''AN-adj'', 10), (''AN-adj-afr'', 4), (''AN-adj-nfe'', 6)]],
      row_fields = [''locus'', ''info'', ''filters''],
      info_fields = [''AC-adj'', ''AC-adj-afr'', ''AC-adj-nfe'',
                     ''AN-adj'', ''AN-adj-afr'', ''AN-adj-nfe''],
      genome_contigs = [''chr1'', ''chrX'', ''chrY''],
      x_contigs = [''chrX''],
      par = []\<rparr>"


definition pop_label_groups :: label_groups where
  "pop_label_groups = [(''group'', [''adj'']), (''pop'', [''afr'', ''amr'', ''nfe''])]"

definition pop_label_combos :: "label_groups \<Rightarrow> string \<Rightarrow> error + string list" where
  "pop_label_combos label_groups d =
     (case map_of label_groups ''pop'' of
        None \<Rightarrow> Inl IndexError
      | Some pops \<Rightarrow>
          (case map_of label_groups ''group'' of
             None \<Rightarrow> Inr pops
           | Some groups \<Rightarrow> Inr (concat (map (\<lambda>g. map (\<lambda>p. g @ d @ p) pops) groups))))"

text \<open>A small table of integer rows with three registered checks, for concrete runs.\<close>

definition demo_table :: "int table" where
  "demo_table = \<lparr>rows = [1, 2, 3, 4]\<rparr>"

definition demo_checks :: "(string, (int, int) field_check) dict" where
  "demo_checks =
     [(''row >= 2'', \<lparr>expr = hl_lt (\<lambda>r. Some r) (hl_lit 2), agg_func = agg_count_where,
                      display_fields = [(''row'', \<lambda>r. r)]\<rparr>),
      (''row != 3'', \<lparr>expr = hl_eq (\<lambda>r. Some r) (hl_lit 3), agg_func = agg_count_where,
                      display_fields = [(''row'', \<lambda>r. r)]\<rparr>),
      (''row > 0'', \<lparr>expr = hl_le (\<lambda>r. Some r) (hl_lit 0), agg_func = agg_count_where,
                      display_fields = []\<rparr>)]"


section \<open>Properties of runs\<close>

lemma report_then_run:
  "report (then_run m f) = then_run (report m) (\<lambda>x. report (f x))"
  by (auto simp: report_def then_run_def split: prod.splits sum.splits)

lemma report_aggregate: "report (then_run ([Engine_aggregate], Inr x) f) = report (f x)"
  by (simp add: report_def then_run_def split: prod.splits)

lemma report_run_each:
  "report (run_each f xs) = run_each (\<lambda>x. report (f x)) xs"
  by (induction xs) (simp_all add: report_then_run, simp add: report_def)

lemma run_each_map: "run_each f (map h xs) = run_each (\<lambda>x. f (h x)) xs"
  by (induction xs) simp_all

lemma run_each_cong_set:
  "(\<And>x. x \<in> set xs \<Longrightarrow> f x = g x) \<Longrightarrow> run_each f xs = run_each g xs"
  by (induction xs) simp_all

lemma dict_get_distinct:
  "distinct (map fst d) \<Longrightarrow> (k, v) \<in> set d \<Longrightarrow> dict_get d k = Inr v"
  by (simp add: dict_get_def)

lemma count_where_filter:
  "agg_count_where p (rows ht) = table_count (table_filter ht p)"
  by (simp add: agg_count_where_def table_count_def table_filter_def)

section \<open>The generic reporter: contract violation and verdict\<close>

text \<open>
  C3. The reporter ends in ValueError exactly when both the precomputed failure count and
  the failure predicate are absent; and then the run is empty: the error comes before any
  request to the engine and before any line of the report.
\<close>

theorem generic_field_check_value_error:
  "(snd (generic_field_check ht d disp cond verbose sp n_fail hc) = Inl ValueError
      \<longleftrightarrow> n_fail = None \<and> cond = None)
   \<and> generic_field_check ht d disp None verbose sp None hc = ([], Inl ValueError)"
  by (auto simp: generic_field_check_def then_run_def emit_def split: option.splits if_splits)

theorem generic_field_check_value_error_witness:
  "snd (generic_field_check demo_table ''row >= 2'' [(''row'', \<lambda>r. r)] None False True None None)
     = Inl ValueError
   \<and> snd (generic_field_check demo_table ''row >= 2'' [(''row'', \<lambda>r. r)] None False True (Some 1) None)
     \<noteq> Inl ValueError
   \<and> snd (generic_field_check demo_table ''row >= 2'' [(''row'', \<lambda>r. r)]
           (Some (hl_lt (\<lambda>r. Some r) (hl_lit 2))) False True None None)
     \<noteq> Inl ValueError"
  using generic_field_check_value_error
          [of demo_table "''row >= 2''" "[(''row'', \<lambda>r. r)]" None False True None None]
        generic_field_check_value_error
          [of demo_table "''row >= 2''" "[(''row'', \<lambda>r. r)]" None False True "Some 1" None]
        generic_field_check_value_error
          [of demo_table "''row >= 2''" "[(''row'', \<lambda>r. r)]"
              "Some (hl_lt (\<lambda>r. Some r) (hl_lit 2))" False True None None]
  by simp

text \<open>
  C9. With a precomputed failure count \<open>n\<close> the verdict of the reporter depends on \<open>n\<close> and the
  description alone: it is the failure line "Found n sites that fail ..." exactly when \<open>n\<close>
  is positive and PASSED otherwise, which for a count (\<open>0 \<le> n\<close>) is exactly when \<open>n = 0\<close>;
  two calls with the same count give the same verdict whatever the table, the predicate, the
  display fields and the flags are. Without a precomputed count the verdict is that of the
  number of rows the predicate keeps. When the percentage is asked for and the check fails,
  the one percentage printed is 100 * n_fail / row count (the table's own count when none
  is passed in); none is printed when it is not asked for or the check passes. The table
  is a value and the reporter returns none: nothing it does can change the dataset.
\<close>

theorem generic_field_check_verdict:
  "verdicts (fst (generic_field_check ht d disp cond verbose sp (Some n) hc))
      = [if 0 < n then FAILED n d else PASSED d]
   \<and> verdicts (fst (generic_field_check ht d disp cond verbose sp (Some n) hc))
      = verdicts (fst (generic_field_check ht' d disp' cond' verbose' sp' (Some n) hc'))
   \<and> (0 \<le> n \<longrightarrow>
        (verdicts (fst (generic_field_check ht d disp cond verbose sp (Some n) hc)) = [PASSED d]
           \<longleftrightarrow> n = 0))
   \<and> verdicts (fst (generic_field_check ht d disp (Some c) verbose sp None hc))
      = [if 0 < table_count (table_filter ht c)
         then FAILED (table_count (table_filter ht c)) d else PASSED d]
   \<and> (0 < n \<and> rows ht \<noteq> [] \<longrightarrow>
        filter is_percent (fst (generic_field_check ht d disp cond verbose True (Some n) None))
          = [Log_percent (100 * (of_int n / of_int (table_count ht)))])
   \<and> (0 < n \<and> k \<noteq> 0 \<longrightarrow>
        filter is_percent (fst (generic_field_check ht d disp cond verbose True (Some n) (Some k)))
          = [Log_percent (100 * (of_int n / of_int k))])
   \<and> filter is_percent (fst (generic_field_check ht d disp cond verbose False (Some n) hc)) = []
   \<and> (n \<le> 0 \<longrightarrow>
        filter is_percent (fst (generic_field_check ht d disp cond verbose sp (Some n) hc)) = [])"
  by (auto simp: generic_field_check_def then_run_def emit_def table_count_def
           split: option.splits if_splits)

theorem generic_field_check_verdict_witness:
  "(0::int) \<le> 0 \<and> (0::int) < 1 \<and> rows demo_table \<noteq> [] \<and> (4::int) \<noteq> 0
   \<and> verdicts (fst (generic_field_check demo_table ''row >= 2'' [(''row'', \<lambda>r. r)]
                       (Some (hl_lt (\<lambda>r. Some r) (hl_lit 2))) False True (Some 0) None))
       = [PASSED ''row >= 2'']
   \<and> verdicts (fst (generic_field_check demo_table ''row >= 2'' [(''row'', \<lambda>r. r)]
                       (Some (hl_lt (\<lambda>r. Some r) (hl_lit 2))) False True (Some 1) None))
       = [FAILED 1 ''row >= 2'']
   \<and> filter is_percent (fst (generic_field_check demo_table ''row >= 2'' [(''row'', \<lambda>r. r)]
                       (Some (hl_lt (\<lambda>r. Some r) (hl_lit 2))) False True (Some 1) None))
       = [Log_percent 25]
   \<and> filter is_percent (fst (generic_field_check demo_table ''row >= 2'' [(''row'', \<lambda>r. r)]
                       (Some (hl_lt (\<lambda>r. Some r) (hl_lit 2))) False True (Some 1) (Some 4)))
       = [Log_percent 25]"
  using generic_field_check_verdict
          [of demo_table "''row >= 2''" "[(''row'', \<lambda>r. r)]"
              "Some (hl_lt (\<lambda>r. Some r) (hl_lit 2))" False True 0 None
              demo_table "[(''row'', \<lambda>r. r)]" None False False None
              "hl_lt (\<lambda>r. Some r) (hl_lit 2)" 4]
        generic_field_check_verdict
          [of demo_table "''row >= 2''" "[(''row'', \<lambda>r. r)]"
              "Some (hl_lt (\<lambda>r. Some r) (hl_lit 2))" False True 1 None
              demo_table "[(''row'', \<lambda>r. r)]" None False False None
              "hl_lt (\<lambda>r. Some r) (hl_lit 2)" 4]
  by (simp add: demo_table_def table_count_def)

section \<open>Batched against unbatched execution\<close>

lemma report_precomputed:
  "report (generic_field_check ht d disp (Some c) verbose sp
             (Some (table_count (table_filter ht c))) hc)
   = report (generic_field_check ht d disp (Some c) verbose sp None hc)"
  by (simp add: generic_field_check_def report_def then_run_def emit_def
           split: option.splits)

text \<open>
  C1. For every table and every dict of field checks whose aggregator is count_where, the
  failure count that the single batched aggregation of \<^verbatim>\<open>generic_field_check_loop\<close> computes for
  an entry is the number of rows left when the table is filtered with that entry's predicate
  alone; and the report of the batched loop (its lines, tables shown and the way it ends)
  is the report of the unbatched executor, which hands every check to the reporter without
  a count. (A dict has distinct keys.)
\<close>

theorem batched_equals_unbatched:
  assumes "distinct (map fst field_check_expr)"
    and "\<forall>(k, v) \<in> set field_check_expr. agg_func v = agg_count_where"
  shows "(\<forall>(k, v) \<in> set field_check_expr.
            map_of (aggregate_checks ht field_check_expr) k
              = Some (table_count (table_filter ht (expr v))))
       \<and> report (generic_field_check_loop ht field_check_expr verbose show_percent_sites ht_count)
         = report (unbatched_field_check_loop ht field_check_expr verbose show_percent_sites ht_count)"
proof
  show "\<forall>(k, v) \<in> set field_check_expr.
            map_of (aggregate_checks ht field_check_expr) k
              = Some (table_count (table_filter ht (expr v)))"
  proof clarify
    fix k v assume kv: "(k, v) \<in> set field_check_expr"
    have "distinct (map fst (aggregate_checks ht field_check_expr))"
      using assms(1) by (simp add: aggregate_checks_def comp_def case_prod_unfold)
    moreover have "(k, agg_func v (expr v) (rows ht)) \<in> set (aggregate_checks ht field_check_expr)"
      using kv by (force simp: aggregate_checks_def)
    ultimately have "map_of (aggregate_checks ht field_check_expr) k = Some (agg_func v (expr v) (rows ht))"
      by simp
    with assms(2) kv show "map_of (aggregate_checks ht field_check_expr) k
              = Some (table_count (table_filter ht (expr v)))"
      by (auto simp: count_where_filter)
  qed
next
  have step: "report (case dict_get field_check_expr (fst x) of
                Inl e \<Rightarrow> ([], Inl e)
              | Inr v \<Rightarrow> generic_field_check ht (fst x) (display_fields v) (Some (expr v))
                    verbose show_percent_sites (Some (agg_func (snd x) (expr (snd x)) (rows ht))) ht_count)
        = report (generic_field_check ht (fst x) (display_fields (snd x)) (Some (expr (snd x)))
           verbose show_percent_sites None ht_count)"
    if "x \<in> set field_check_expr" for x
  proof -
    obtain k v where x: "x = (k, v)" by (cases x)
    with that assms have "dict_get field_check_expr k = Inr v" "agg_func v = agg_count_where"
      by (auto simp: dict_get_distinct)
    then show ?thesis by (simp add: x count_where_filter report_precomputed)
  qed
  have "report (generic_field_check_loop ht field_check_expr verbose show_percent_sites ht_count)
      = run_each (\<lambda>x. report (case dict_get field_check_expr (fst x) of
                Inl e \<Rightarrow> ([], Inl e)
              | Inr v \<Rightarrow> generic_field_check ht (fst x) (display_fields v) (Some (expr v))
                    verbose show_percent_sites (Some (agg_func (snd x) (expr (snd x)) (rows ht))) ht_count))
          field_check_expr"
    by (simp add: generic_field_check_loop_def report_aggregate report_run_each
          aggregate_checks_def run_each_map case_prod_unfold cong: sum.case_cong)
  also have "\<dots> = run_each (\<lambda>x. report (generic_field_check ht (fst x) (display_fields (snd x)) (Some (expr (snd x)))
           verbose show_percent_sites None ht_count)) field_check_expr"
    by (rule run_each_cong_set) (rule step)
  also have "\<dots> = report (unbatched_field_check_loop ht field_check_expr verbose show_percent_sites ht_count)"
    by (simp add: unbatched_field_check_loop_def report_run_each case_prod_unfold)
  finally show "report (generic_field_check_loop ht field_check_expr verbose show_percent_sites ht_count)
         = report (unbatched_field_check_loop ht field_check_expr verbose show_percent_sites ht_count)" .
qed

theorem batched_equals_unbatched_witness:
  "distinct (map fst demo_checks)
   \<and> list_all (\<lambda>(k, v). agg_func v = agg_count_where) demo_checks
   \<and> map_of (aggregate_checks demo_table demo_checks) ''row != 3''
       = Some (table_count (table_filter demo_table (hl_eq (\<lambda>r. Some r) (hl_lit 3))))
   \<and> report (generic_field_check_loop demo_table demo_checks False True None)
     = report (unbatched_field_check_loop demo_table demo_checks False True None)
   \<and> aggregate_checks demo_table demo_checks
     = [(''row >= 2'', 1), (''row != 3'', 1), (''row > 0'', 0)]"
proof -
  have h1: "distinct (map fst demo_checks)"
    by (simp add: demo_checks_def)
  have h2: "\<forall>(k, v) \<in> set demo_checks. agg_func v = agg_count_where"
    by (simp add: demo_checks_def)
  have h3: "aggregate_checks demo_table demo_checks
     = [(''row >= 2'', 1), (''row != 3'', 1), (''row > 0'', 0)]"
    by (simp add: aggregate_checks_def demo_checks_def demo_table_def agg_count_where_def
          holds_def hl_lt_def hl_eq_def hl_le_def hl_lit_def)
  have h4: "(''row != 3'', \<lparr>expr = hl_eq (\<lambda>r. Some r) (hl_lit 3), agg_func = agg_count_where,
                      display_fields = [(''row'', \<lambda>r. r)]\<rparr>) \<in> set demo_checks"
    by (simp add: demo_checks_def)
  have h5: "list_all (\<lambda>(k, v). agg_func v = agg_count_where) demo_checks"
    by (simp add: demo_checks_def)
  from batched_equals_unbatched [OF h1 h2, of demo_table False True None] h1 h3 h4 h5
  show ?thesis by fastforce
qed


section \<open>Dicts built by assignment, and the loop over them\<close>

lemma snd_then_run_Inr:
  "snd (then_run m f) = Inr y \<longleftrightarrow> (\<exists>x. snd m = Inr x \<and> snd (f x) = Inr y)"
  by (cases m) (auto simp: then_run_def split: sum.splits prod.splits)

lemma fst_then_run_Inr:
  "snd m = Inr x \<Longrightarrow> fst (then_run m f) = fst m @ fst (f x)"
  by (cases m) (auto simp: then_run_def split: sum.splits prod.splits)

lemma fst_then_run_Inl:
  "snd m = Inl e \<Longrightarrow> fst (then_run m f) = fst m"
  by (cases m) (auto simp: then_run_def split: sum.splits prod.splits)

lemma then_run_pair: "then_run (tr, Inr x) f = (tr @ fst (f x), snd (f x))"
  by (simp add: then_run_def split: prod.splits)

lemma verdicts_append: "verdicts (xs @ ys) = verdicts xs @ verdicts ys"
  by (induction xs rule: verdicts.induct) simp_all

lemma verdicts_then_run:
  "verdicts (fst (then_run m f)) =
     verdicts (fst m) @ (case snd m of Inl e \<Rightarrow> [] | Inr x \<Rightarrow> verdicts (fst (f x)))"
  by (cases m) (auto simp: then_run_def verdicts_append split: sum.splits prod.splits)

lemma assigned_Nil: "assigned [] d = d"
  by (simp add: assigned_def)

lemma assigned_append: "assigned (xs @ ys) d = assigned ys (assigned xs d)"
  by (simp add: assigned_def)

lemma map_of_assigned:
  "map_of (assigned kvs d) k = (case map_of (rev kvs) k of Some v \<Rightarrow> Some v | None \<Rightarrow> map_of d k)"
proof (induction kvs arbitrary: d)
  case Nil
  show ?case by (simp add: assigned_def)
next
  case (Cons p kvs)
  obtain k' v' where p: "p = (k', v')" by (cases p)
  have "map_of (assigned (p # kvs) d) k = map_of (assigned kvs (AList.update k' v' d)) k"
    by (simp add: assigned_def p)
  also have "\<dots> = (case map_of (rev kvs) k of Some v \<Rightarrow> Some v
                     | None \<Rightarrow> map_of (AList.update k' v' d) k)"
    by (rule Cons.IH)
  finally show ?case
    by (auto simp: p update_conv' map_add_def split: option.splits)
qed

lemma distinct_assigned:
  "distinct (map fst d) \<Longrightarrow> distinct (map fst (assigned kvs d))"
  by (induction kvs arbitrary: d) (auto simp: assigned_def distinct_update)

lemma assigned_lookup_in:
  assumes "map_of (assigned kvs []) k = Some v" shows "(k, v) \<in> set kvs"
proof -
  from assms have "map_of (rev kvs) k = Some v"
    by (simp add: map_of_assigned split: option.splits)
  then have "(k, v) \<in> set (rev kvs)" by (rule map_of_SomeD)
  then show ?thesis by simp
qed

lemma assigned_key_present:
  assumes "(k, v) \<in> set kvs" shows "\<exists>v'. map_of (assigned kvs d) k = Some v'"
proof -
  from assms have "k \<in> fst ` set (rev kvs)" by force
  then obtain v' where "map_of (rev kvs) k = Some v'"
    by (metis domD dom_map_of_conv_image_fst)
  then show ?thesis by (simp add: map_of_assigned)
qed

lemma writes_skip: "writes (\<lambda>s. ([], Inr s)) {}"
  unfolding writes_def by (auto intro: exI [of _ "[]"] simp: assigned_Nil)

lemma writes_register:
  assumes "\<And>v. entry = Inr v \<Longrightarrow> p = (k, v)"
  shows "writes (register k entry) {p}"
  unfolding writes_def
proof (intro allI impI)
  fix s s' assume "snd (register k entry s) = Inr s'"
  then obtain v where v: "entry = Inr v" and s': "s' = AList.update k v s"
    by (auto simp: register_def split: sum.splits)
  from assms [OF v] have "s' = assigned [p] s" by (simp add: s' assigned_def)
  then show "\<exists>kvs. s' = assigned kvs s \<and> set kvs = {p}" by (intro exI [of _ "[p]"]) simp
qed

lemma writes_then:
  assumes "writes m W1" "writes f W2"
  shows "writes (\<lambda>s. then_run (m s) f) (W1 \<union> W2)"
  unfolding writes_def
proof (intro allI impI)
  fix s s' assume "snd (then_run (m s) f) = Inr s'"
  then obtain x where x: "snd (m s) = Inr x" and f: "snd (f x) = Inr s'"
    by (auto simp: snd_then_run_Inr)
  from assms(1) x obtain k1 where k1: "x = assigned k1 s" "set k1 = W1"
    unfolding writes_def by blast
  from assms(2) f obtain k2 where k2: "s' = assigned k2 x" "set k2 = W2"
    unfolding writes_def by blast
  show "\<exists>kvs. s' = assigned kvs s \<and> set kvs = W1 \<union> W2"
    by (intro exI [of _ "k1 @ k2"]) (simp add: k1 k2 assigned_append)
qed

lemma writes_emit_then:
  assumes "writes f W"
  shows "writes (\<lambda>s. then_run (emit evs) (\<lambda>_. f s)) W"
  using assms unfolding writes_def
  by (auto simp: snd_then_run_Inr emit_def)

lemma writes_for_each:
  assumes "\<And>x. x \<in> set xs \<Longrightarrow> writes (body x) (W x)"
  shows "writes (for_each xs body) (\<Union>x\<in>set xs. W x)"
  using assms
proof (induction xs)
  case Nil
  show ?case using writes_skip by simp
next
  case (Cons x xs)
  have "writes (\<lambda>s. then_run (body x s) (for_each xs body)) (W x \<union> (\<Union>y\<in>set xs. W y))"
    by (rule writes_then) (simp_all add: Cons)
  then show ?case by (simp add: writes_def)
qed

lemma writes_cong: "writes body W \<Longrightarrow> W = W' \<Longrightarrow> writes body W'"
  by simp

lemma no_verdict_skip: "no_verdict (\<lambda>s. ([], Inr s))"
  by (simp add: no_verdict_def)

lemma no_verdict_register: "no_verdict (register k entry)"
  by (simp add: no_verdict_def register_def split: sum.splits)

lemma no_verdict_then:
  "no_verdict m \<Longrightarrow> no_verdict f \<Longrightarrow> no_verdict (\<lambda>s. then_run (m s) f)"
  by (auto simp: no_verdict_def verdicts_then_run split: sum.splits)

lemma no_verdict_for_each:
  assumes "\<And>x. x \<in> set xs \<Longrightarrow> no_verdict (body x)"
  shows "no_verdict (for_each xs body)"
  using assms
proof (induction xs)
  case Nil
  show ?case by (simp add: no_verdict_def)
next
  case (Cons x xs)
  have "no_verdict (\<lambda>s. then_run (body x s) (for_each xs body))"
    by (rule no_verdict_then) (simp_all add: Cons)
  then show ?case by (simp add: no_verdict_def)
qed

text \<open>The loop over precomputed counts returns, and prints one verdict for every entry.\<close>

lemma generic_field_check_precomputed_returns:
  assumes "sp \<longrightarrow> hc = None \<and> n \<le> table_count ht"
  shows "snd (generic_field_check ht d disp (Some c) verbose sp (Some n) hc) = Inr ()"
proof (cases sp)
  case True
  with assms have hc: "hc = None" and le: "n \<le> table_count ht" by simp_all
  show ?thesis
  proof (cases "0 < n")
    case pos: True
    with le have "table_count ht \<noteq> 0" by linarith
    with pos show ?thesis
      by (simp add: generic_field_check_def then_run_def emit_def True hc)
  next
    case False
    then show ?thesis
      by (simp add: generic_field_check_def then_run_def emit_def True hc)
  qed
next
  case False
  then show ?thesis
    by (simp add: generic_field_check_def then_run_def emit_def)
qed

lemma verdicts_precomputed:
  "verdicts (fst (generic_field_check ht d disp cond verbose sp (Some n) hc)) = [verdict_of d n]"
  by (auto simp: generic_field_check_def then_run_def emit_def verdict_of_def
           split: option.splits if_splits)

lemma count_where_le: "agg_count_where p (rows ht) \<le> table_count ht"
  by (simp add: agg_count_where_def table_count_def)

lemma run_each_returns:
  "(\<And>x. x \<in> set xs \<Longrightarrow> snd (f x) = Inr ()) \<Longrightarrow> snd (run_each f xs) = Inr ()"
  by (induction xs) (auto simp: snd_then_run_Inr)

lemma verdicts_run_each:
  "(\<And>x. x \<in> set xs \<Longrightarrow> snd (f x) = Inr ()) \<Longrightarrow>
   verdicts (fst (run_each f xs)) = concat (map (\<lambda>x. verdicts (fst (f x))) xs)"
  by (induction xs) (auto simp: verdicts_then_run)

lemma generic_field_check_loop_run:
  assumes d: "distinct (map fst fce)"
    and a: "\<forall>(k, v) \<in> set fce. agg_func v = agg_count_where"
    and s: "sp \<longrightarrow> hc = None"
  shows "snd (generic_field_check_loop ht fce verbose sp hc) = Inr ()"
    and "verdicts (fst (generic_field_check_loop ht fce verbose sp hc))
         = map (\<lambda>(k, v). verdict_of k (agg_count_where (expr v) (rows ht))) fce"
proof -
  let ?g = "\<lambda>x. case dict_get fce (fst x) of
                Inl e \<Rightarrow> ([], Inl e)
              | Inr v \<Rightarrow> generic_field_check ht (fst x) (display_fields v) (Some (expr v))
                    verbose sp (Some (agg_func (snd x) (expr (snd x)) (rows ht))) hc"
  have loop: "generic_field_check_loop ht fce verbose sp hc
        = (Engine_aggregate # fst (run_each ?g fce), snd (run_each ?g fce))"
    by (simp add: generic_field_check_loop_def aggregate_checks_def run_each_map
          case_prod_unfold then_run_pair cong: sum.case_cong)
  have g: "?g x = generic_field_check ht (fst x) (display_fields (snd x)) (Some (expr (snd x)))
                    verbose sp (Some (agg_count_where (expr (snd x)) (rows ht))) hc"
    if "x \<in> set fce" for x
  proof -
    obtain k v where x: "x = (k, v)" by (cases x)
    with that d a have "dict_get fce k = Inr v" "agg_func v = agg_count_where"
      by (auto simp: dict_get_def)
    then show ?thesis by (simp add: x)
  qed
  have r: "snd (?g x) = Inr ()" if "x \<in> set fce" for x
    using g [OF that] s
    by (simp add: generic_field_check_precomputed_returns count_where_le)
  show "snd (generic_field_check_loop ht fce verbose sp hc) = Inr ()"
    by (simp add: loop run_each_returns r)
  have v: "verdicts (fst (?g x)) = [verdict_of (fst x) (agg_count_where (expr (snd x)) (rows ht))]"
    if "x \<in> set fce" for x
    using g [OF that] by (simp add: verdicts_precomputed)
  have "verdicts (fst (generic_field_check_loop ht fce verbose sp hc))
        = concat (map (\<lambda>x. verdicts (fst (?g x))) fce)"
    by (simp add: loop verdicts_run_each r)
  also have "\<dots> = concat (map (\<lambda>x. [verdict_of (fst x) (agg_count_where (expr (snd x)) (rows ht))]) fce)"
    using v by (simp cong: map_cong)
  also have "\<dots> = map (\<lambda>(k, v). verdict_of k (agg_count_where (expr v) (rows ht))) fce"
    by (induction fce) (simp_all add: case_prod_unfold)
  finally show "verdicts (fst (generic_field_check_loop ht fce verbose sp hc))
         = map (\<lambda>(k, v). verdict_of k (agg_count_where (expr v) (rows ht))) fce" .
qed

lemma verdict_label_of [simp]: "verdict_label (verdict_of k n) = k"
  by (simp add: verdict_of_def)

lemma filter_label_distinct:
  assumes "distinct (map fst fce)" "map_of fce k = Some v"
  shows "filter (\<lambda>x. verdict_label x = k) (map (\<lambda>(k, v). verdict_of k (f v)) fce)
         = [verdict_of k (f v)]"
  using assms
proof (induction fce)
  case Nil
  then show ?case by simp
next
  case (Cons p fce)
  obtain k' v' where p: "p = (k', v')" by (cases p)
  show ?case
  proof (cases "k' = k")
    case True
    with Cons.prems p have "v' = v" "k \<notin> fst ` set fce" by auto
    then have "filter (\<lambda>x. verdict_label x = k) (map (\<lambda>(k, v). verdict_of k (f v)) fce) = []"
      by (force simp: filter_empty_conv)
    with True p \<open>v' = v\<close> show ?thesis by simp
  next
    case False
    with Cons p show ?thesis by simp
  qed
qed

section \<open>Subset frequencies: the failure is equality\<close>

lemma writes_register_set: "writes (register k entry) {(k, v) | v. entry = Inr v}"
  unfolding writes_def
proof (intro allI impI)
  fix s s' assume "snd (register k entry s) = Inr s'"
  then obtain v where v: "entry = Inr v" and s': "s' = AList.update k v s"
    by (auto simp: register_def split: sum.splits)
  show "\<exists>kvs. s' = assigned kvs s \<and> set kvs = {(k, v) | v. entry = Inr v}"
    by (intro exI [of _ "[(k, v)]"]) (auto simp: s' v assigned_def)
qed

lemma register_returns: "snd (register k entry s) = Inr s' \<Longrightarrow> \<exists>v. entry = Inr v"
  by (auto simp: register_def split: sum.splits)

lemma for_each_returns_each:
  "snd (for_each xs body s) = Inr s' \<Longrightarrow> x \<in> set xs \<Longrightarrow> \<exists>s1 s2. snd (body x s1) = Inr s2"
  by (induction xs arbitrary: s) (auto simp: snd_then_run_Inr)

lemma compare_entry_Inr:
  assumes "compare_entry cmp t l r = Inr v"
  shows "expr v = cmp (\<lambda>row. info row l) (\<lambda>row. info row r)" "agg_func v = agg_count_where"
  using assms
  by (auto simp: compare_entry_def bind_err_def info_field_def split: if_splits)

lemma count_where_hl_eq:
  "agg_count_where (hl_eq (\<lambda>row. info row l) (\<lambda>row. info row r)) rs
    = int (length (filter (\<lambda>row. info row l \<noteq> None \<and> info row l = info row r) rs))"
proof -
  have h: "holds (hl_eq (\<lambda>row. info row l) (\<lambda>row. info row r))
          = (\<lambda>row. info row l \<noteq> None \<and> info row l = info row r)"
    by (auto simp: holds_def hl_eq_def fun_eq_iff split: option.splits)
  show ?thesis by (simp only: agg_count_where_def h)
qed

lemma sf_key_inj:
  assumes "m \<in> {''AC'', ''AN'', ''nhomalt''}" "m' \<in> {''AC'', ''AN'', ''nhomalt''}"
    and "g \<in> {''adj'', ''raw''}" "g' \<in> {''adj'', ''raw''}"
    and "sf_left d m g @ '' != '' @ sf_right d mff s m g
         = sf_left d m' g' @ '' != '' @ sf_right d mff s' m' g'"
  shows "m = m' \<and> g = g' \<and> s = s'"
proof -
  from assms(1,2,5) have m: "m = m'"
    by (auto simp: sf_left_def)
  with assms(3,4,5) have g: "g = g'"
    by (auto simp: sf_left_def)
  from assms(5) m g have "s = s'"
    by (simp add: sf_left_def sf_right_def split: if_splits)
  with m g show ?thesis by simp
qed


lemma no_verdict_emit_then:
  "verdicts evs = [] \<Longrightarrow> no_verdict f \<Longrightarrow> no_verdict (\<lambda>s. then_run (emit evs) (\<lambda>_. f s))"
  by (auto simp: no_verdict_def verdicts_then_run emit_def split: sum.splits)

lemma checks_of_assigned:
  assumes fce: "fce = assigned kvs []"
    and ag: "\<And>k v. (k, v) \<in> set kvs \<Longrightarrow> agg_func v = agg_count_where"
  shows "distinct (map fst fce)" "\<forall>(k, v) \<in> set fce. agg_func v = agg_count_where"
proof -
  show d: "distinct (map fst fce)" by (simp add: fce distinct_assigned)
  show "\<forall>(k, v) \<in> set fce. agg_func v = agg_count_where"
  proof clarify
    fix k v assume "(k, v) \<in> set fce"
    with d have "map_of fce k = Some v" by simp
    then have "(k, v) \<in> set kvs" unfolding fce by (rule assigned_lookup_in)
    then show "agg_func v = agg_count_where" by (rule ag)
  qed
qed

lemma subset_freq_written:
  fixes t :: "('n, 'z) vtable_scheme"
  assumes b: "snd (subset_freq_checks t subsets d mff metrics) = Inr fce"
  shows "\<exists>kvs. fce = assigned kvs [] \<and>
           set kvs = (\<Union>s\<in>set subsets. if s \<noteq> [] then
                        (\<Union>m\<in>set metrics. \<Union>g\<in>set [''adj'', ''raw''].
                           {(sf_left d m g @ '' != '' @ sf_right d mff s m g, v) | v.
                              compare_entry hl_eq t (sf_left d m g) (sf_right d mff s m g) = Inr v})
                      else {})"
proof -
  let ?W = "\<lambda>s m g. {(sf_left d m g @ '' != '' @ sf_right d mff s m g, v) | v.
                              compare_entry hl_eq t (sf_left d m g) (sf_right d mff s m g) = Inr v}"
  let ?inner = "\<lambda>s m g (fce :: (string, ('n vrow, 'n dval) field_check) dict).
             then_run (emit [Log_comparing s g m] :: ('n dval, unit) run) (\<lambda>_.
               let check_field_left = m @ d @ g;
                   check_field_right =
                     (if mff then m @ d @ s @ d @ g else s @ d @ m @ d @ g)
               in register (check_field_left @ '' != '' @ check_field_right)
                    (compare_entry hl_eq t check_field_left check_field_right)
                    fce)"
  have inner: "writes (?inner s m g) (?W s m g)" for s m g
    unfolding Let_def sf_left_def sf_right_def
    by (rule writes_emit_then) (rule writes_register_set)
  have mid: "writes (for_each [''adj'', ''raw''] (?inner s m)) (\<Union>g\<in>set [''adj'', ''raw'']. ?W s m g)"
    for s m
    by (rule writes_for_each) (rule inner)
  have mid2: "writes (for_each metrics (\<lambda>m. for_each [''adj'', ''raw''] (?inner s m)))
                 (\<Union>m\<in>set metrics. \<Union>g\<in>set [''adj'', ''raw'']. ?W s m g)" for s
    by (rule writes_for_each) (rule mid)
  let ?outer = "\<lambda>s. if s \<noteq> [] then for_each metrics (\<lambda>m. for_each [''adj'', ''raw''] (?inner s m))
                     else (\<lambda>fce. ([], Inr fce))"
  have outer: "writes (?outer s)
                 (if s \<noteq> [] then (\<Union>m\<in>set metrics. \<Union>g\<in>set [''adj'', ''raw'']. ?W s m g) else {})"
    for s
    using mid2 [of s] writes_skip by (cases "s = []") simp_all
  have "writes (for_each subsets ?outer)
           (\<Union>s\<in>set subsets. if s \<noteq> [] then (\<Union>m\<in>set metrics. \<Union>g\<in>set [''adj'', ''raw'']. ?W s m g) else {})"
    by (rule writes_for_each) (rule outer)
  moreover from b have "snd (for_each subsets ?outer []) = Inr fce"
    by (simp add: subset_freq_checks_def)
  ultimately show ?thesis unfolding writes_def by blast
qed

lemma subset_freq_no_verdict:
  fixes t :: "('n, 'z) vtable_scheme"
  shows "verdicts (fst (subset_freq_checks t subsets d mff metrics)) = []"
proof -
  let ?inner = "\<lambda>s m g (fce :: (string, ('n vrow, 'n dval) field_check) dict).
             then_run (emit [Log_comparing s g m] :: ('n dval, unit) run) (\<lambda>_.
               let check_field_left = m @ d @ g;
                   check_field_right =
                     (if mff then m @ d @ s @ d @ g else s @ d @ m @ d @ g)
               in register (check_field_left @ '' != '' @ check_field_right)
                    (compare_entry hl_eq t check_field_left check_field_right)
                    fce)"
  have inner: "no_verdict (?inner s m g)" for s m g
    unfolding Let_def
    by (rule no_verdict_emit_then) (simp_all add: no_verdict_register)
  let ?outer = "\<lambda>s. if s \<noteq> [] then for_each metrics (\<lambda>m. for_each [''adj'', ''raw''] (?inner s m))
                     else (\<lambda>fce. ([], Inr fce))"
  have mid: "no_verdict (for_each [''adj'', ''raw''] (?inner s m))" for s m
    by (rule no_verdict_for_each) (rule inner)
  have mid2: "no_verdict (for_each metrics (\<lambda>m. for_each [''adj'', ''raw''] (?inner s m)))" for s
    by (rule no_verdict_for_each) (rule mid)
  have outer: "no_verdict (?outer s)" for s
    using mid2 [of s] no_verdict_skip by (cases "s = []") simp_all
  have "no_verdict (for_each subsets ?outer)"
    by (rule no_verdict_for_each) (rule outer)
  moreover have "subset_freq_checks t subsets d mff metrics = for_each subsets ?outer []"
    by (simp add: subset_freq_checks_def)
  ultimately show ?thesis by (simp add: no_verdict_def)
qed

lemma subset_freq_entry_returns:
  fixes t :: "('n, 'z) vtable_scheme"
  assumes b: "snd (subset_freq_checks t subsets d mff metrics) = Inr fce"
    and "s \<in> set subsets" "s \<noteq> []" "m \<in> set metrics" "g \<in> set [''adj'', ''raw'']"
  shows "\<exists>v. compare_entry hl_eq t (sf_left d m g) (sf_right d mff s m g) = Inr v"
proof -
  let ?inner = "\<lambda>s m g (fce :: (string, ('n vrow, 'n dval) field_check) dict).
             then_run (emit [Log_comparing s g m] :: ('n dval, unit) run) (\<lambda>_.
               let check_field_left = m @ d @ g;
                   check_field_right =
                     (if mff then m @ d @ s @ d @ g else s @ d @ m @ d @ g)
               in register (check_field_left @ '' != '' @ check_field_right)
                    (compare_entry hl_eq t check_field_left check_field_right)
                    fce)"
  let ?outer = "\<lambda>s. if s \<noteq> [] then for_each metrics (\<lambda>m. for_each [''adj'', ''raw''] (?inner s m))
                     else (\<lambda>fce. ([], Inr fce))"
  from b have "snd (for_each subsets ?outer []) = Inr fce"
    by (simp add: subset_freq_checks_def)
  from for_each_returns_each [OF this assms(2)] obtain s1 s2 where
    "snd (?outer s s1) = Inr s2" by blast
  with assms(3) have "snd (for_each metrics (\<lambda>m. for_each [''adj'', ''raw''] (?inner s m)) s1) = Inr s2"
    by simp
  from for_each_returns_each [OF this assms(4)] obtain s3 s4 where
    "snd (for_each [''adj'', ''raw''] (?inner s m) s3) = Inr s4" by blast
  from for_each_returns_each [OF this assms(5)] obtain s5 s6 where
    "snd (?inner s m g s5) = Inr s6" by blast
  then have "snd (register (sf_left d m g @ '' != '' @ sf_right d mff s m g)
                    (compare_entry hl_eq t (sf_left d m g) (sf_right d mff s m g)) s5
                  :: ('n dval, (string, ('n vrow, 'n dval) field_check) dict) run) = Inr s6"
    by (cases mff) (simp_all add: snd_then_run_Inr Let_def sf_left_def sf_right_def emit_def)
  then show ?thesis by (rule register_returns)
qed

text \<open>
  C2, as amended. For every non-empty subset, every metric in AC, AN, nhomalt and both
  quality tiers, a call of \<^verbatim>\<open>compare_subset_freqs\<close> that returns prints exactly one verdict for
  the entry labelled "metric-tier != metric-subset-tier", and its failure count is the
  number of rows at which the whole-callset field and the subset field are both defined
  and equal: the predicate registered under the label is the equality, the opposite of the
  label, as the reporter's convention has it.
\<close>

theorem compare_subset_freqs_flags_equality:
  fixes t :: "('n, 'z) vtable_scheme"
  assumes ret: "snd (compare_subset_freqs t subsets verbose sp d mff [''AC'', ''AN'', ''nhomalt''])
                 = Inr ()"
    and sub: "sub \<in> set subsets" "sub \<noteq> []"
    and met: "metric \<in> {''AC'', ''AN'', ''nhomalt''}"
    and grp: "tier \<in> {''adj'', ''raw''}"
    and l: "l = metric @ d @ tier"
    and r: "r = (if mff then metric @ d @ sub @ d @ tier else sub @ d @ metric @ d @ tier)"
  shows "verdicts_for (l @ '' != '' @ r)
           (compare_subset_freqs t subsets verbose sp d mff [''AC'', ''AN'', ''nhomalt''])
         = [verdict_of (l @ '' != '' @ r)
              (int (length (filter (\<lambda>row. info row l \<noteq> None \<and> info row l = info row r)
                              (rows t))))]"
proof -
  let ?metrics = "[''AC'', ''AN'', ''nhomalt'']"
  let ?key = "l @ '' != '' @ r"
  have lr: "l = sf_left d metric tier" "r = sf_right d mff sub metric tier"
    by (simp_all add: l r sf_left_def sf_right_def)
  from ret obtain fce where
    b: "snd (subset_freq_checks t subsets d mff ?metrics) = Inr fce"
    and rest: "snd (then_run (generic_field_check_loop t fce verbose sp None) (\<lambda>_.
     then_run ([], info_field t (''AC'' @ d @ ''raw'')) (\<lambda>ac_raw.
       emit [Engine_aggregate,
             Log_total_defined_raw_ac (agg_count_where (hl_is_defined ac_raw) (rows t))]))) = Inr ()"
    unfolding compare_subset_freqs_def snd_then_run_Inr by blast
  from rest obtain ac where ac: "info_field t (''AC'' @ d @ ''raw'') = Inr ac"
    unfolding snd_then_run_Inr by auto
  from subset_freq_written [OF b] obtain kvs where
    fce: "fce = assigned kvs []"
    and kvs: "set kvs = (\<Union>s\<in>set subsets. if s \<noteq> [] then
                        (\<Union>m\<in>set ?metrics. \<Union>g\<in>set [''adj'', ''raw''].
                           {(sf_left d m g @ '' != '' @ sf_right d mff s m g, v) | v.
                              compare_entry hl_eq t (sf_left d m g) (sf_right d mff s m g) = Inr v})
                      else {})"
    by blast
  have ag: "agg_func v = agg_count_where" if "(k, v) \<in> set kvs" for k v
    using that unfolding kvs by (auto split: if_splits dest: compare_entry_Inr(2))
  note wf = checks_of_assigned [OF fce ag]
  from subset_freq_entry_returns [OF b sub(1) sub(2), of metric tier] met grp
  obtain v0 where v0: "compare_entry hl_eq t l r = Inr v0"
    unfolding lr by auto
  have "(?key, v0) \<in> set kvs"
    unfolding kvs using sub met grp v0 by (auto simp: lr)
  from assigned_key_present [OF this, of "[]"] obtain v where v: "map_of fce ?key = Some v"
    unfolding fce by blast
  then have "(?key, v) \<in> set kvs" unfolding fce by (rule assigned_lookup_in)
  then obtain s' m' g' where
    tr: "m' \<in> {''AC'', ''AN'', ''nhomalt''}" "g' \<in> {''adj'', ''raw''}"
    and k': "?key = sf_left d m' g' @ '' != '' @ sf_right d mff s' m' g'"
    and v': "compare_entry hl_eq t (sf_left d m' g') (sf_right d mff s' m' g') = Inr v"
    unfolding kvs by (auto split: if_splits)
  from sf_key_inj [OF met tr(1) grp tr(2) k' [unfolded lr]]
  have "metric = m'" "tier = g'" "sub = s'" by simp_all
  with v' have "compare_entry hl_eq t l r = Inr v" by (simp add: lr)
  then have ev: "expr v = hl_eq (\<lambda>row. info row l) (\<lambda>row. info row r)"
    by (rule compare_entry_Inr(1))
  have hc: "sp \<longrightarrow> (None :: int option) = None" by simp
  have lp: "snd (generic_field_check_loop t fce verbose sp None) = Inr ()"
    by (rule generic_field_check_loop_run(1) [OF wf hc])
  have vl: "verdicts (fst (generic_field_check_loop t fce verbose sp None))
         = map (\<lambda>(k, v). verdict_of k (agg_count_where (expr v) (rows t))) fce"
    by (rule generic_field_check_loop_run(2) [OF wf hc])
  have "verdicts (fst (compare_subset_freqs t subsets verbose sp d mff ?metrics))
        = map (\<lambda>(k, v). verdict_of k (agg_count_where (expr v) (rows t))) fce"
    unfolding compare_subset_freqs_def
    by (simp add: verdicts_then_run b lp subset_freq_no_verdict vl emit_def split: sum.splits)
  then have "verdicts_for ?key (compare_subset_freqs t subsets verbose sp d mff ?metrics)
        = [verdict_of ?key (agg_count_where (expr v) (rows t))]"
    unfolding verdicts_for_def
    using filter_label_distinct [OF wf(1) v, where f = "\<lambda>v. agg_count_where (expr v) (rows t)"]
    by simp
  then show ?thesis by (simp only: ev count_where_hl_eq)
qed

theorem compare_subset_freqs_flags_equality_witness:
  "snd (compare_subset_freqs callset_table [''hgdp''] False True ''-'' True
          [''AC'', ''AN'', ''nhomalt'']) = Inr ()
   \<and> verdicts_for ''AC-adj != AC-hgdp-adj''
         (compare_subset_freqs callset_table [''hgdp''] False True ''-'' True
            [''AC'', ''AN'', ''nhomalt''])
       = [FAILED 1 ''AC-adj != AC-hgdp-adj'']
   \<and> int (length (filter (\<lambda>row. info row ''AC-adj'' \<noteq> None
                                 \<and> info row ''AC-adj'' = info row ''AC-hgdp-adj'')
                         (rows callset_table))) = 1"
proof -
  have ret: "snd (compare_subset_freqs callset_table [''hgdp''] False True ''-'' True
          [''AC'', ''AN'', ''nhomalt'']) = Inr ()"
    by code_simp
  have n: "int (length (filter (\<lambda>row. info row ''AC-adj'' \<noteq> None
                                 \<and> info row ''AC-adj'' = info row ''AC-hgdp-adj'')
                         (rows callset_table))) = 1"
    by (simp add: callset_table_def callset_row_def)
  have th: "verdicts_for (''AC-adj'' @ '' != '' @ ''AC-hgdp-adj'')
         (compare_subset_freqs callset_table [''hgdp''] False True ''-'' True
            [''AC'', ''AN'', ''nhomalt''])
       = [verdict_of (''AC-adj'' @ '' != '' @ ''AC-hgdp-adj'')
            (int (length (filter (\<lambda>row. info row ''AC-adj'' \<noteq> None
                                 \<and> info row ''AC-adj'' = info row ''AC-hgdp-adj'')
                         (rows callset_table))))]"
    by (rule compare_subset_freqs_flags_equality [OF ret, of "''hgdp''" "''AC''" "''adj''"])
       simp_all
  have v: "verdicts_for ''AC-adj != AC-hgdp-adj''
         (compare_subset_freqs callset_table [''hgdp''] False True ''-'' True
            [''AC'', ''AN'', ''nhomalt''])
       = [FAILED 1 ''AC-adj != AC-hgdp-adj'']"
    using th unfolding n by (simp add: verdict_of_def)
  from ret v n show ?thesis by (intro conjI)
qed

text \<open>
  C2 as stated fails: in the table above the two AC fields differ at two rows and are equal
  at one, and the failure count reported is 1.
\<close>

theorem compare_subset_freqs_mismatch_counterexample:
  "verdicts_for ''AC-adj != AC-hgdp-adj''
         (compare_subset_freqs callset_table [''hgdp''] False True ''-'' True
            [''AC'', ''AN'', ''nhomalt''])
       = [FAILED 1 ''AC-adj != AC-hgdp-adj'']
   \<and> int (length (filter (\<lambda>row. info row ''AC-adj'' \<noteq> info row ''AC-hgdp-adj'')
                         (rows callset_table))) = 2
   \<and> verdicts_for ''AC-adj != AC-hgdp-adj''
         (compare_subset_freqs callset_table [''hgdp''] False True ''-'' True
            [''AC'', ''AN'', ''nhomalt''])
       \<noteq> [verdict_of ''AC-adj != AC-hgdp-adj''
            (int (length (filter (\<lambda>row. info row ''AC-adj'' \<noteq> info row ''AC-hgdp-adj'')
                         (rows callset_table))))]"
proof -
  have v: "verdicts_for ''AC-adj != AC-hgdp-adj''
         (compare_subset_freqs callset_table [''hgdp''] False True ''-'' True
            [''AC'', ''AN'', ''nhomalt''])
       = [FAILED 1 ''AC-adj != AC-hgdp-adj'']"
    by code_simp
  have n: "int (length (filter (\<lambda>row. info row ''AC-adj'' \<noteq> info row ''AC-hgdp-adj'')
                         (rows callset_table))) = 2"
    by (simp add: callset_table_def callset_row_def)
  show ?thesis unfolding v n by (simp add: verdict_of_def)
qed


section \<open>Raw call statistics are not below adj\<close>

lemma writes_registered: "writes (register k entry) (registered k entry)"
  using writes_register_set [of k entry] by (simp add: registered_def)

lemma raw_adj_writes:
  fixes t :: "('n::linordered_idom, 'z) vtable_scheme"
  shows "writes (raw_adj_checks t subsets d mff)
           (defined_pairs t d \<union> (sign_pairs t d \<union> raw_adj_pairs t subsets d mff))"
  unfolding raw_adj_checks_def Let_def defined_pairs_def sign_pairs_def raw_adj_pairs_def
  by (intro writes_then writes_for_each writes_registered)

lemma defined_entry_Inr:
  "defined_entry c t a f = Inr v \<Longrightarrow> agg_func v = agg_count_where"
  by (auto simp: defined_entry_def bind_err_def info_field_def split: if_splits)

lemma defined_pairs_agg: "(k, v) \<in> defined_pairs t d \<Longrightarrow> agg_func v = agg_count_where"
  by (auto simp: defined_pairs_def registered_def dest: defined_entry_Inr)

lemma sign_pairs_agg: "(k, v) \<in> sign_pairs t d \<Longrightarrow> agg_func v = agg_count_where"
  by (auto simp: sign_pairs_def registered_def bind_err_def info_field_def table_filters_def
           split: if_splits)

lemma raw_adj_pairs_agg:
  "(k, v) \<in> raw_adj_pairs t subsets d mff \<Longrightarrow> agg_func v = agg_count_where"
  by (auto simp: raw_adj_pairs_def registered_def dest: compare_entry_Inr(2))

lemma defined_pairs_last: "(k, v) \<in> defined_pairs t d \<Longrightarrow> last k \<noteq> CHR ''j''"
  by (auto simp: defined_pairs_def registered_def)

lemma sign_pairs_last: "(k, v) \<in> sign_pairs t d \<Longrightarrow> last k \<noteq> CHR ''j''"
  by (auto simp: sign_pairs_def registered_def)

lemma raw_adj_key_inj:
  assumes "(L @ ''raw'') @ '' >= '' @ (L @ ''adj'') = (L' @ ''raw'') @ '' >= '' @ (L' @ ''adj'')"
  shows "L = L'"
proof -
  from assms have "length ((L @ ''raw'') @ '' >= '' @ (L @ ''adj''))
                 = length ((L' @ ''raw'') @ '' >= '' @ (L' @ ''adj''))"
    by (simp only:)
  then have "length L = length L'" by simp
  with assms show ?thesis by simp
qed

lemma raw_adj_pairs_expr:
  assumes "((L @ ''raw'') @ '' >= '' @ (L @ ''adj''), v) \<in> raw_adj_pairs t subsets d mff"
  shows "expr v = hl_lt (\<lambda>row. info row (L @ ''raw'')) (\<lambda>row. info row (L @ ''adj''))"
proof -
  from assms obtain L' where
    k: "(L @ ''raw'') @ '' >= '' @ (L @ ''adj'') = (L' @ ''raw'') @ '' >= '' @ (L' @ ''adj'')"
    and v: "compare_entry hl_lt t (L' @ ''raw'') (L' @ ''adj'') = Inr v"
  proof -
    from assms consider
      sf where "(L @ ''raw'') @ '' >= '' @ (L @ ''adj'') = (sf @ d @ ''raw'') @ '' >= '' @ (sf @ d @ ''adj'')"
        "compare_entry hl_lt t (sf @ d @ ''raw'') (sf @ d @ ''adj'') = Inr v"
    | sf s where "(L @ ''raw'') @ '' >= '' @ (L @ ''adj'')
          = ((if mff then sf @ d @ (if s \<noteq> [] then s @ d else s)
                    else (if s \<noteq> [] then s @ d else s) @ sf @ d) @ ''raw'') @ '' >= '' @
            ((if mff then sf @ d @ (if s \<noteq> [] then s @ d else s)
                    else (if s \<noteq> [] then s @ d else s) @ sf @ d) @ ''adj'')"
        "compare_entry hl_lt t
            ((if mff then sf @ d @ (if s \<noteq> [] then s @ d else s)
                    else (if s \<noteq> [] then s @ d else s) @ sf @ d) @ ''raw'')
            ((if mff then sf @ d @ (if s \<noteq> [] then s @ d else s)
                    else (if s \<noteq> [] then s @ d else s) @ sf @ d) @ ''adj'') = Inr v"
      unfolding raw_adj_pairs_def registered_def by blast
    then show ?thesis
    proof cases
      case (1 sf)
      show ?thesis by (rule that [of "sf @ d"]) (use 1 in simp_all)
    next
      case (2 sf s)
      show ?thesis
        by (rule that [of "(if mff then sf @ d @ (if s \<noteq> [] then s @ d else s)
                    else (if s \<noteq> [] then s @ d else s) @ sf @ d)"]) (use 2 in simp_all)
    qed
  qed
  from raw_adj_key_inj [OF k] v show ?thesis by (simp add: compare_entry_Inr(1))
qed

lemma raw_adj_entry_returns:
  fixes t :: "('n::linordered_idom, 'z) vtable_scheme"
  assumes b: "snd (raw_adj_checks t subsets d mff s0) = Inr fce"
    and sf: "sf \<in> set [''AC'', ''AN'', ''nhomalt'']"
  shows "\<exists>v. compare_entry hl_lt t (sf @ d @ ''raw'') (sf @ d @ ''adj'') = Inr v"
    and "s \<in> set subsets \<Longrightarrow>
         \<exists>v. compare_entry hl_lt t
            ((if mff then sf @ d @ (if s \<noteq> [] then s @ d else s)
                    else (if s \<noteq> [] then s @ d else s) @ sf @ d) @ ''raw'')
            ((if mff then sf @ d @ (if s \<noteq> [] then s @ d else s)
                    else (if s \<noteq> [] then s @ d else s) @ sf @ d) @ ''adj'') = Inr v"
proof -
  let ?inner = "\<lambda>subfield subset.
               register
                 (((if mff then subfield @ d @ (if subset \<noteq> [] then subset @ d else subset)
                    else (if subset \<noteq> [] then subset @ d else subset) @ subfield @ d) @ ''raw'')
                  @ '' >= '' @
                  ((if mff then subfield @ d @ (if subset \<noteq> [] then subset @ d else subset)
                    else (if subset \<noteq> [] then subset @ d else subset) @ subfield @ d) @ ''adj''))
                 (compare_entry hl_lt t
                   ((if mff then subfield @ d @ (if subset \<noteq> [] then subset @ d else subset)
                    else (if subset \<noteq> [] then subset @ d else subset) @ subfield @ d) @ ''raw'')
                   ((if mff then subfield @ d @ (if subset \<noteq> [] then subset @ d else subset)
                    else (if subset \<noteq> [] then subset @ d else subset) @ subfield @ d) @ ''adj''))
               :: (string, ('n vrow, 'n dval) field_check) dict
                  \<Rightarrow> ('n dval, (string, ('n vrow, 'n dval) field_check) dict) run"
  let ?body = "\<lambda>subfield field_check_expr.
          then_run
            (register ((subfield @ d @ ''raw'') @ '' >= '' @ (subfield @ d @ ''adj''))
                  (compare_entry hl_lt t (subfield @ d @ ''raw'') (subfield @ d @ ''adj''))
                  field_check_expr)
            (for_each subsets (?inner subfield))"
  from b obtain s1 where "snd (for_each [''AC'', ''AN'', ''nhomalt''] ?body s1) = Inr fce"
    unfolding raw_adj_checks_def Let_def snd_then_run_Inr by blast
  from for_each_returns_each [OF this sf] obtain s2 s3 where "snd (?body sf s2) = Inr s3"
    by blast
  then obtain s4 where
    o: "snd (register ((sf @ d @ ''raw'') @ '' >= '' @ (sf @ d @ ''adj''))
                  (compare_entry hl_lt t (sf @ d @ ''raw'') (sf @ d @ ''adj'')) s2
             :: ('n dval, (string, ('n vrow, 'n dval) field_check) dict) run) = Inr s4"
    and i: "snd (for_each subsets (?inner sf) s4) = Inr s3"
    unfolding snd_then_run_Inr by blast
  from o show "\<exists>v. compare_entry hl_lt t (sf @ d @ ''raw'') (sf @ d @ ''adj'') = Inr v"
    by (rule register_returns)
  assume "s \<in> set subsets"
  from for_each_returns_each [OF i this] obtain s5 s6 where "snd (?inner sf s s5) = Inr s6"
    by blast
  then show "\<exists>v. compare_entry hl_lt t
            ((if mff then sf @ d @ (if s \<noteq> [] then s @ d else s)
                    else (if s \<noteq> [] then s @ d else s) @ sf @ d) @ ''raw'')
            ((if mff then sf @ d @ (if s \<noteq> [] then s @ d else s)
                    else (if s \<noteq> [] then s @ d else s) @ sf @ d) @ ''adj'') = Inr v"
    by (rule register_returns)
qed

lemma raw_adj_no_verdict:
  fixes t :: "('n::linordered_idom, 'z) vtable_scheme"
  shows "no_verdict (raw_adj_checks t subsets d mff)"
  unfolding raw_adj_checks_def Let_def
  by (intro no_verdict_then no_verdict_for_each no_verdict_register)

lemma count_where_hl_lt:
  "agg_count_where (hl_lt (\<lambda>row. info row l) (\<lambda>row. info row r)) rs
    = int (length (filter (\<lambda>row. \<exists>x y. info row l = Some x \<and> info row r = Some y \<and> x < y) rs))"
proof -
  have h: "holds (hl_lt (\<lambda>row. info row l) (\<lambda>row. info row r))
          = (\<lambda>row. \<exists>x y. info row l = Some x \<and> info row r = Some y \<and> x < y)"
    by (auto simp: holds_def hl_lt_def fun_eq_iff split: option.splits)
  show ?thesis by (simp only: agg_count_where_def h)
qed

lemma raw_adj_pairs_whole:
  assumes "sf \<in> set [''AC'', ''AN'', ''nhomalt'']"
    and "compare_entry hl_lt t (sf @ d @ ''raw'') (sf @ d @ ''adj'') = Inr v"
  shows "((sf @ d @ ''raw'') @ '' >= '' @ (sf @ d @ ''adj''), v) \<in> raw_adj_pairs t subsets d mff"
  unfolding raw_adj_pairs_def registered_def using assms by blast

lemma raw_adj_pairs_subset:
  assumes "sf \<in> set [''AC'', ''AN'', ''nhomalt'']" "s \<in> set subsets"
    and "L = (if mff then sf @ d @ (if s \<noteq> [] then s @ d else s)
              else (if s \<noteq> [] then s @ d else s) @ sf @ d)"
    and "compare_entry hl_lt t (L @ ''raw'') (L @ ''adj'') = Inr v"
  shows "((L @ ''raw'') @ '' >= '' @ (L @ ''adj''), v) \<in> raw_adj_pairs t subsets d mff"
  unfolding raw_adj_pairs_def registered_def using assms by blast

text \<open>
  C4, as amended. For every subfield in AC, AN, nhomalt and every configured subset (the
  empty string, configured or not, is the whole callset), a call of
  \<^verbatim>\<open>check_raw_and_adj_callstats\<close> that returns prints exactly one verdict for the entry
  labelled "raw field >= adj field", and its failure count is the number of rows at which
  both values are defined and the raw value is strictly less than the adj value. The
  verdict is PASSED exactly when adj \<le> raw at every row where both are defined; a row
  where one of them is missing is not counted.
\<close>

theorem raw_not_below_adj:
  fixes t :: "('n::linordered_idom, 'z) vtable_scheme"
  assumes ret: "snd (check_raw_and_adj_callstats t subsets verbose d mff) = Inr ()"
    and sf: "subfield \<in> {''AC'', ''AN'', ''nhomalt''}"
    and sub: "sub \<in> set subsets \<or> sub = []"
    and lab: "label = (if mff then subfield @ d @ (if sub \<noteq> [] then sub @ d else sub)
                       else (if sub \<noteq> [] then sub @ d else sub) @ subfield @ d)"
    and l: "l = label @ ''raw''" and r: "r = label @ ''adj''"
  shows "verdicts_for (l @ '' >= '' @ r) (check_raw_and_adj_callstats t subsets verbose d mff)
         = [verdict_of (l @ '' >= '' @ r)
              (int (length (filter
                 (\<lambda>row. \<exists>x y. info row l = Some x \<and> info row r = Some y \<and> x < y) (rows t))))]
       \<and> (verdicts_for (l @ '' >= '' @ r) (check_raw_and_adj_callstats t subsets verbose d mff)
            = [PASSED (l @ '' >= '' @ r)]
          \<longleftrightarrow> (\<forall>row \<in> set (rows t). \<forall>x y.
                 info row l = Some x \<and> info row r = Some y \<longrightarrow> y \<le> x))"
proof -
  let ?key = "l @ '' >= '' @ r"
  let ?bad = "\<lambda>row. \<exists>x y. info row l = Some x \<and> info row r = Some y \<and> x < y"
  from ret obtain fce where
    b: "snd (raw_adj_checks t subsets d mff []) = Inr fce"
    unfolding check_raw_and_adj_callstats_def snd_then_run_Inr by blast
  from raw_adj_writes [of t subsets d mff] b obtain kvs where
    fce: "fce = assigned kvs []"
    and kvs: "set kvs = defined_pairs t d \<union> (sign_pairs t d \<union> raw_adj_pairs t subsets d mff)"
    unfolding writes_def by blast
  have ag: "agg_func v = agg_count_where" if "(k, v) \<in> set kvs" for k v
    using that unfolding kvs
    by (auto dest: defined_pairs_agg sign_pairs_agg raw_adj_pairs_agg)
  note wf = checks_of_assigned [OF fce ag]
  have key: "?key = (label @ ''raw'') @ '' >= '' @ (label @ ''adj'')"
    by (simp add: l r)
  have "\<exists>v0. compare_entry hl_lt t l r = Inr v0 \<and> (?key, v0) \<in> raw_adj_pairs t subsets d mff"
  proof (cases "sub \<in> set subsets")
    case True
    from raw_adj_entry_returns(2) [OF b _ True, of subfield] sf
    obtain v0 where v0: "compare_entry hl_lt t (label @ ''raw'') (label @ ''adj'') = Inr v0"
      unfolding lab by auto
    from sf have "subfield \<in> set [''AC'', ''AN'', ''nhomalt'']" by simp
    from raw_adj_pairs_subset [OF this True lab v0] v0 show ?thesis
      unfolding key l r by blast
  next
    case False
    with sub have s: "sub = []" by simp
    have lab': "label = subfield @ d" by (simp add: lab s)
    from raw_adj_entry_returns(1) [OF b, of subfield] sf
    obtain v0 where v0: "compare_entry hl_lt t (label @ ''raw'') (label @ ''adj'') = Inr v0"
      unfolding lab' by auto
    from sf have "subfield \<in> set [''AC'', ''AN'', ''nhomalt'']" by simp
    from raw_adj_pairs_whole [OF this, of t d v0 subsets mff] v0 show ?thesis
      unfolding key l r lab' by simp
  qed
  then obtain v0 where v0: "compare_entry hl_lt t l r = Inr v0"
    and "(?key, v0) \<in> raw_adj_pairs t subsets d mff" by blast
  then have "(?key, v0) \<in> set kvs" by (simp add: kvs)
  from assigned_key_present [OF this, of "[]"] obtain v where v: "map_of fce ?key = Some v"
    unfolding fce by blast
  then have "(?key, v) \<in> set kvs" unfolding fce by (rule assigned_lookup_in)
  moreover have "last ?key = CHR ''j''" by (simp add: r)
  ultimately have "(?key, v) \<in> raw_adj_pairs t subsets d mff"
    unfolding kvs using defined_pairs_last [of ?key v t d] sign_pairs_last [of ?key v t d]
    by blast
  then have ev: "expr v = hl_lt (\<lambda>row. info row l) (\<lambda>row. info row r)"
    unfolding key using raw_adj_pairs_expr [of label v t subsets d mff] by (simp add: l r)
  have hc: "False \<longrightarrow> (None :: int option) = None" by simp
  have lp: "snd (generic_field_check_loop t fce verbose False None) = Inr ()"
    by (rule generic_field_check_loop_run(1) [OF wf hc])
  have vl: "verdicts (fst (generic_field_check_loop t fce verbose False None))
         = map (\<lambda>(k, v). verdict_of k (agg_count_where (expr v) (rows t))) fce"
    by (rule generic_field_check_loop_run(2) [OF wf hc])
  have nv: "verdicts (fst (raw_adj_checks t subsets d mff [])) = []"
    using raw_adj_no_verdict [of t subsets d mff] by (simp add: no_verdict_def)
  have "verdicts (fst (check_raw_and_adj_callstats t subsets verbose d mff))
        = map (\<lambda>(k, v). verdict_of k (agg_count_where (expr v) (rows t))) fce"
    unfolding check_raw_and_adj_callstats_def
    by (simp add: verdicts_then_run b nv vl)
  then have "verdicts_for ?key (check_raw_and_adj_callstats t subsets verbose d mff)
        = [verdict_of ?key (agg_count_where (expr v) (rows t))]"
    unfolding verdicts_for_def
    using filter_label_distinct [OF wf(1) v, where f = "\<lambda>v. agg_count_where (expr v) (rows t)"]
    by simp
  then have res: "verdicts_for ?key (check_raw_and_adj_callstats t subsets verbose d mff)
        = [verdict_of ?key (int (length (filter ?bad (rows t))))]"
    by (simp only: ev count_where_hl_lt)
  have "verdict_of ?key (int (length (filter ?bad (rows t)))) = PASSED ?key
        \<longleftrightarrow> filter ?bad (rows t) = []"
    by (simp add: verdict_of_def)
  also have "\<dots> \<longleftrightarrow> (\<forall>row \<in> set (rows t). \<forall>x y.
                 info row l = Some x \<and> info row r = Some y \<longrightarrow> y \<le> x)"
    by (auto simp: filter_empty_conv not_less)
  finally show ?thesis using res by simp
qed

theorem raw_not_below_adj_witness:
  "snd (check_raw_and_adj_callstats callset_table ['''', ''hgdp''] False ''-'' True) = Inr ()
   \<and> verdicts_for ''AC-hgdp-raw >= AC-hgdp-adj''
         (check_raw_and_adj_callstats callset_table ['''', ''hgdp''] False ''-'' True)
       = [FAILED 1 ''AC-hgdp-raw >= AC-hgdp-adj'']
   \<and> int (length (filter
           (\<lambda>row. \<exists>x y. info row ''AC-hgdp-raw'' = Some x \<and> info row ''AC-hgdp-adj'' = Some y
                      \<and> x < y) (rows callset_table))) = 1
   \<and> verdicts_for ''AN-raw >= AN-adj''
         (check_raw_and_adj_callstats callset_table ['''', ''hgdp''] False ''-'' True)
       = [PASSED ''AN-raw >= AN-adj'']
   \<and> list_all (\<lambda>row. case (info row ''AN-raw'', info row ''AN-adj'') of
                         (Some x, Some y) \<Rightarrow> y \<le> x | _ \<Rightarrow> True) (rows callset_table)"
proof -
  have ret: "snd (check_raw_and_adj_callstats callset_table ['''', ''hgdp''] False ''-'' True)
             = Inr ()"
    by code_simp
  have n: "int (length (filter
           (\<lambda>row. \<exists>x y. info row ''AC-hgdp-raw'' = Some x \<and> info row ''AC-hgdp-adj'' = Some y
                      \<and> x < y) (rows callset_table))) = 1"
    by (simp add: callset_table_def callset_row_def)
  have a: "list_all (\<lambda>row. case (info row ''AN-raw'', info row ''AN-adj'') of
                         (Some x, Some y) \<Rightarrow> y \<le> x | _ \<Rightarrow> True) (rows callset_table)"
    by (simp add: callset_table_def callset_row_def)
  have a': "\<forall>row \<in> set (rows callset_table). \<forall>x y.
                 info row ''AN-raw'' = Some x \<and> info row ''AN-adj'' = Some y \<longrightarrow> y \<le> x"
    by (simp add: callset_table_def callset_row_def)
  have t1: "verdicts_for (''AC-hgdp-raw'' @ '' >= '' @ ''AC-hgdp-adj'')
         (check_raw_and_adj_callstats callset_table ['''', ''hgdp''] False ''-'' True)
       = [verdict_of (''AC-hgdp-raw'' @ '' >= '' @ ''AC-hgdp-adj'')
            (int (length (filter
           (\<lambda>row. \<exists>x y. info row ''AC-hgdp-raw'' = Some x \<and> info row ''AC-hgdp-adj'' = Some y
                      \<and> x < y) (rows callset_table))))]"
    using raw_not_below_adj [OF ret, of "''AC''" "''hgdp''" "''AC-hgdp-''"
            "''AC-hgdp-raw''" "''AC-hgdp-adj''"]
    by simp
  have t2: "verdicts_for (''AN-raw'' @ '' >= '' @ ''AN-adj'')
         (check_raw_and_adj_callstats callset_table ['''', ''hgdp''] False ''-'' True)
       = [PASSED (''AN-raw'' @ '' >= '' @ ''AN-adj'')]"
    by (rule raw_not_below_adj [OF ret, of "''AN''" "''''" "''AN-''" "''AN-raw''" "''AN-adj''",
              THEN conjunct2, THEN iffD2])
       (use a' in simp_all)
  have v1: "verdicts_for ''AC-hgdp-raw >= AC-hgdp-adj''
         (check_raw_and_adj_callstats callset_table ['''', ''hgdp''] False ''-'' True)
       = [FAILED 1 ''AC-hgdp-raw >= AC-hgdp-adj'']"
    using t1 unfolding n by (simp add: verdict_of_def)
  have v2: "verdicts_for ''AN-raw >= AN-adj''
         (check_raw_and_adj_callstats callset_table ['''', ''hgdp''] False ''-'' True)
       = [PASSED ''AN-raw >= AN-adj'']"
    using t2 by simp
  from ret v1 n v2 a show ?thesis by (intro conjI)
qed

text \<open>
  C4 as stated fails: the one row of the table above has the adj count 5 and no raw count,
  so that raw \<ge> adj does not hold at it, and the check passes.
\<close>

theorem raw_not_below_adj_missing_counterexample:
  "snd (check_raw_and_adj_callstats missing_raw_table [''''] False ''-'' True) = Inr ()
   \<and> verdicts_for ''AC-raw >= AC-adj''
         (check_raw_and_adj_callstats missing_raw_table [''''] False ''-'' True)
       = [PASSED ''AC-raw >= AC-adj'']
   \<and> rows missing_raw_table = [missing_raw_row]
   \<and> info missing_raw_row ''AC-raw'' = None
   \<and> info missing_raw_row ''AC-adj'' = Some 5
   \<and> \<not> holds (hl_le (\<lambda>row. info row ''AC-adj'') (\<lambda>row. info row ''AC-raw'')) missing_raw_row"
proof -
  have "snd (check_raw_and_adj_callstats missing_raw_table [''''] False ''-'' True) = Inr ()"
    by code_simp
  moreover have "verdicts_for ''AC-raw >= AC-adj''
         (check_raw_and_adj_callstats missing_raw_table [''''] False ''-'' True)
       = [PASSED ''AC-raw >= AC-adj'']"
    by code_simp
  moreover have "rows missing_raw_table = [missing_raw_row]"
    by (simp add: missing_raw_table_def)
  moreover have "info missing_raw_row ''AC-raw'' = None \<and> info missing_raw_row ''AC-adj'' = Some 5"
    by (simp add: missing_raw_row_def callset_row_def)
  moreover have "\<not> holds (hl_le (\<lambda>row. info row ''AC-adj'') (\<lambda>row. info row ''AC-raw''))
                    missing_raw_row"
    by (simp add: holds_def hl_le_def missing_raw_row_def callset_row_def)
  ultimately show ?thesis by (intro conjI) simp_all
qed

section \<open>Sex-chromosome checks\<close>

lemma filter_then_run:
  "filter P (fst (then_run m f)) =
     filter P (fst m) @ (case snd m of Inl e \<Rightarrow> [] | Inr x \<Rightarrow> filter P (fst (f x)))"
  by (cases m) (auto simp: then_run_def split: sum.splits prod.splits)

lemma run_each_returns_each:
  "snd (run_each f xs) = Inr () \<Longrightarrow> x \<in> set xs \<Longrightarrow> snd (f x) = Inr ()"
  by (induction xs) (auto simp: snd_then_run_Inr)

lemma filter_run_each:
  "snd (run_each f xs) = Inr () \<Longrightarrow>
   filter P (fst (run_each f xs)) = concat (map (\<lambda>x. filter P (fst (f x))) xs)"
  by (induction xs) (auto simp: filter_then_run snd_then_run_Inr)

lemma filter_run_each_nil:
  "(\<And>x. x \<in> set xs \<Longrightarrow> filter P (fst (f x)) = []) \<Longrightarrow> filter P (fst (run_each f xs)) = []"
  by (induction xs) (auto simp: filter_then_run split: sum.splits)

lemma verdicts_run_each_nil:
  "(\<And>x. x \<in> set xs \<Longrightarrow> verdicts (fst (f x)) = []) \<Longrightarrow> verdicts (fst (run_each f xs)) = []"
  by (induction xs) (auto simp: verdicts_then_run split: sum.splits)

lemma silent_register: "silent (register k entry)"
  by (simp add: silent_def register_def split: sum.splits)

lemma silent_then: "silent m \<Longrightarrow> silent f \<Longrightarrow> silent (\<lambda>s. then_run (m s) f)"
  unfolding silent_def
proof
  fix s assume m: "\<forall>s. fst (m s) = []" and f: "\<forall>s. fst (f s) = []"
  show "fst (then_run (m s) f) = []"
  proof (cases "snd (m s)")
    case (Inl e)
    then show ?thesis using m by (simp add: fst_then_run_Inl)
  next
    case (Inr x)
    then show ?thesis using m f by (simp add: fst_then_run_Inr)
  qed
qed

lemma silent_for_each:
  assumes "\<And>x. x \<in> set xs \<Longrightarrow> silent (body x)"
  shows "silent (for_each xs body)"
  using assms
proof (induction xs)
  case Nil
  show ?case by (simp add: silent_def)
next
  case (Cons x xs)
  have "silent (\<lambda>s. then_run (body x s) (for_each xs body))"
    by (rule silent_then) (simp_all add: Cons)
  then show ?case by (simp add: silent_def)
qed

lemma no_y_line_generic_field_check:
  "filter (is_y_line m) (fst (generic_field_check ht d disp cond verbose sp (Some n) hc)) = []"
  by (simp add: generic_field_check_def then_run_def emit_def split: option.splits)

lemma no_y_line_loop:
  "filter (is_y_line m) (fst (generic_field_check_loop ht fce verbose sp hc)) = []"
proof -
  have "filter (is_y_line m) (fst (case dict_get fce (fst x) of
                Inl e \<Rightarrow> ([], Inl e)
              | Inr v \<Rightarrow> generic_field_check ht (fst x) (display_fields v) (Some (expr v))
                    verbose sp (Some (snd x)) hc)) = []" for x :: "string \<times> int"
    by (simp add: no_y_line_generic_field_check split: sum.splits)
  then show ?thesis
    unfolding generic_field_check_loop_def
    by (simp add: filter_then_run filter_run_each_nil case_prod_unfold)
qed

lemma concat_key_distinct:
  assumes "distinct (map fst xs)" "map_of xs k = Some v"
  shows "concat (map (\<lambda>x. if fst x = k then [F x] else []) xs) = [F (k, v)]"
  using assms
proof (induction xs)
  case Nil
  then show ?case by simp
next
  case (Cons p xs)
  obtain k' v' where p: "p = (k', v')" by (cases p)
  show ?case
  proof (cases "k' = k")
    case True
    with Cons.prems p have "v' = v" "k \<notin> fst ` set xs" by auto
    then have "concat (map (\<lambda>x. if fst x = k then [F x] else []) xs) = []"
      by (induction xs) auto
    with True p \<open>v' = v\<close> show ?thesis by simp
  next
    case False
    with Cons p show ?thesis by simp
  qed
qed

lemma info_field_Inr: "info_field t f = Inr e \<Longrightarrow> e = (\<lambda>r. info r f)"
  by (auto simp: info_field_def split: if_splits)

lemma y_checks_lines:
  fixes t :: "('n, 'z) vtable_scheme"
  assumes ret: "snd (y_variant_checks t xx) = Inr ()" and m: "m \<in> set xx"
  shows "y_lines_for m (y_variant_checks t xx)
         = [if agg_any (hl_is_defined (\<lambda>r. info r m)) (filter (\<lambda>r. contig r = ''chrY'') (rows t))
            then Log_y_failed m
                   (agg_take_defined (\<lambda>r. info r m) (filter (\<lambda>r. contig r = ''chrY'') (rows t)))
            else Log_y_passed m]"
proof -
  let ?ys = "filter (\<lambda>r. contig r = ''chrY'') (rows t)"
  let ?ty = "t\<lparr>rows := ?ys\<rparr>"
  let ?g = "\<lambda>(metric, val).
              if val then
                then_run ([], info_field ?ty metric) (\<lambda>e.
                  emit [Engine_aggregate, Log_y_failed metric (agg_take_defined e (rows ?ty))])
              else emit [Log_y_passed metric] :: ('n dval, unit) run"
  let ?out = "\<lambda>mv. map (\<lambda>(metric, e). (metric, agg_any (hl_is_defined e) (rows ?ty))) mv"
  from ret have ty: "filter_intervals t ''chrY'' = Inr ?ty"
    unfolding y_variant_checks_def snd_then_run_Inr
    by (auto simp: filter_intervals_def split: if_splits)
  from ret obtain mv where
    mv: "snd (for_each xx (\<lambda>metric. register metric (info_field ?ty metric)) []
          :: ('n dval, (string, ('n vrow, 'n) expr) dict) run) = Inr mv"
    and re: "snd (run_each ?g (?out mv)) = Inr ()"
    unfolding y_variant_checks_def snd_then_run_Inr ty by auto
  have "writes (for_each xx (\<lambda>metric. register metric (info_field ?ty metric))
          :: _ \<Rightarrow> ('n dval, (string, ('n vrow, 'n) expr) dict) run)
          (\<Union>metric\<in>set xx. registered metric (info_field ?ty metric))"
    by (intro writes_for_each writes_registered)
  with mv obtain kvs where kvs: "mv = assigned kvs []"
    "set kvs = (\<Union>metric\<in>set xx. registered metric (info_field ?ty metric))"
    unfolding writes_def by blast
  have d: "distinct (map fst mv)" by (simp add: kvs distinct_assigned)
  have val: "e = (\<lambda>r. info r k)" if "(k, e) \<in> set mv" for k e
  proof -
    from that d have "map_of mv k = Some e" by simp
    then have "(k, e) \<in> set kvs" unfolding kvs(1) by (rule assigned_lookup_in)
    then show ?thesis unfolding kvs(2) registered_def by (auto dest: info_field_Inr)
  qed
  from for_each_returns_each [OF mv m] obtain e0 where "info_field ?ty m = Inr e0"
    by (blast dest: register_returns)
  then have "(m, e0) \<in> set kvs" unfolding kvs(2) registered_def using m by blast
  from assigned_key_present [OF this, of "[]"] obtain e where e: "map_of mv m = Some e"
    unfolding kvs(1) by blast
  then have em: "e = (\<lambda>r. info r m)" by (auto dest: map_of_SomeD val)
  have line: "filter (is_y_line m)
                (fst (?g (fst x, agg_any (hl_is_defined (snd x)) (rows ?ty))))
        = (if fst x = m then
             [if agg_any (hl_is_defined (snd x)) ?ys
              then Log_y_failed m (agg_take_defined (snd x) ?ys) else Log_y_passed m]
           else [])" if "x \<in> set mv" for x
  proof -
    obtain k e' where x: "x = (k, e')" by (cases x)
    with that have e': "e' = (\<lambda>r. info r k)" by (simp add: val)
    have mem: "(k, agg_any (hl_is_defined e') (rows ?ty)) \<in> set (?out mv)"
      using that x by force
    have "snd (?g (k, agg_any (hl_is_defined e') (rows ?ty))) = Inr ()"
      by (rule run_each_returns_each [OF re mem])
    then have "agg_any (hl_is_defined e') ?ys \<Longrightarrow> info_field ?ty k = Inr e'"
      by (auto simp: snd_then_run_Inr e' dest: info_field_Inr)
    then show ?thesis
      by (auto simp: x filter_then_run emit_def)
  qed
  have "silent (for_each xx (\<lambda>metric. register metric (info_field ?ty metric))
          :: _ \<Rightarrow> ('n dval, (string, ('n vrow, 'n) expr) dict) run)"
    by (intro silent_for_each silent_register)
  then have sl: "fst (for_each xx (\<lambda>metric. register metric (info_field ?ty metric)) []
          :: ('n dval, (string, ('n vrow, 'n) expr) dict) run) = []"
    by (simp add: silent_def)
  have "y_lines_for m (y_variant_checks t xx) = filter (is_y_line m) (fst (run_each ?g (?out mv)))"
    unfolding y_lines_for_def y_variant_checks_def
    by (simp add: filter_then_run ty mv sl emit_def)
  also have "\<dots> = concat (map (\<lambda>x. filter (is_y_line m) (fst (?g x))) (?out mv))"
    by (rule filter_run_each [OF re])
  also have "\<dots> = concat (map (\<lambda>x. filter (is_y_line m)
                (fst (?g (fst x, agg_any (hl_is_defined (snd x)) (rows ?ty))))) mv)"
    by (simp add: comp_def case_prod_unfold)
  also have "\<dots> = concat (map (\<lambda>x. if fst x = m then
             [if agg_any (hl_is_defined (snd x)) ?ys
              then Log_y_failed m (agg_take_defined (snd x) ?ys) else Log_y_passed m]
           else []) mv)"
    using line by (simp cong: map_cong)
  also have "\<dots> = [if agg_any (hl_is_defined (snd (m, e))) ?ys
              then Log_y_failed m (agg_take_defined (snd (m, e)) ?ys) else Log_y_passed m]"
    by (rule concat_key_distinct [OF d e])
  finally show ?thesis by (simp add: em)
qed

lemma x_nonpar_writes:
  "writes (x_nonpar_checks tx xx d)
     (\<Union>m\<in>set xx. registered (m @ '' == '' @ str_remove (d @ ''XX'') m)
                       (compare_entry hl_ne tx m (str_remove (d @ ''XX'') m)))"
  unfolding x_nonpar_checks_def Let_def
  by (intro writes_for_each writes_registered)

lemma x_nonpar_silent: "silent (x_nonpar_checks tx xx d)"
  unfolding x_nonpar_checks_def Let_def
  by (intro silent_for_each silent_register)

lemma x_nonpar_entry_returns:
  fixes tx :: "('n, 'z) vtable_scheme"
  assumes "snd (x_nonpar_checks tx xx d s0) = Inr fce" "m \<in> set xx"
  shows "\<exists>v. compare_entry hl_ne tx m (str_remove (d @ ''XX'') m) = Inr v"
proof -
  from assms(1) have "snd (for_each xx (\<lambda>metric.
       register (metric @ '' == '' @ str_remove (d @ ''XX'') metric)
            (compare_entry hl_ne tx metric (str_remove (d @ ''XX'') metric))) s0
        :: ('n dval, (string, ('n vrow, 'n dval) field_check) dict) run) = Inr fce"
    by (simp add: x_nonpar_checks_def Let_def)
  from for_each_returns_each [OF this assms(2)] show ?thesis
    by (blast dest: register_returns)
qed

lemma blank_split_inj:
  assumes "CHR '' '' \<notin> set m" "CHR '' '' \<notin> set m'" "m @ CHR '' '' # a = m' @ CHR '' '' # b"
  shows "m = m'"
  using assms
proof (induction m arbitrary: m')
  case Nil
  then show ?case by (cases m') auto
next
  case (Cons c m)
  then show ?case by (cases m') auto
qed

lemma count_where_hl_ne:
  "agg_count_where (hl_ne (\<lambda>row. info row l) (\<lambda>row. info row r)) rs
    = int (length (filter (\<lambda>row. \<exists>x y. info row l = Some x \<and> info row r = Some y \<and> x \<noteq> y) rs))"
proof -
  have h: "holds (hl_ne (\<lambda>row. info row l) (\<lambda>row. info row r))
          = (\<lambda>row. \<exists>x y. info row l = Some x \<and> info row r = Some y \<and> x \<noteq> y)"
    by (auto simp: holds_def hl_ne_def fun_eq_iff split: option.splits)
  show ?thesis by (simp only: agg_count_where_def h)
qed

lemma y_checks_no_verdict:
  fixes t :: "('n, 'z) vtable_scheme"
  shows "verdicts (fst (y_variant_checks t xx)) = []"
proof -
  have sl: "fst (for_each xx (\<lambda>metric. register metric (info_field ty metric)) []
          :: ('n dval, (string, ('n vrow, 'n) expr) dict) run) = []"
    for ty :: "('n, 'z) vtable_scheme"
  proof -
    have "silent (for_each xx (\<lambda>metric. register metric (info_field ty metric))
          :: _ \<Rightarrow> ('n dval, (string, ('n vrow, 'n) expr) dict) run)"
      by (intro silent_for_each silent_register)
    then show ?thesis by (simp add: silent_def)
  qed
  have g: "verdicts (fst ((case x of (metric, val) \<Rightarrow>
              if val then
                then_run ([], info_field ty metric) (\<lambda>e.
                  emit [Engine_aggregate, Log_y_failed metric (agg_take_defined e (rows ty))])
              else emit [Log_y_passed metric]) :: ('n dval, unit) run)) = []"
    for x and ty :: "('n, 'z) vtable_scheme"
    by (cases x) (auto simp: verdicts_then_run emit_def split: sum.splits)
  show ?thesis
    unfolding y_variant_checks_def
    by (auto simp: verdicts_then_run emit_def sl g verdicts_run_each_nil split: sum.splits)
qed

lemma take_defined_any:
  assumes "agg_any (hl_is_defined e) rs"
  shows "\<exists>r x. r \<in> set rs \<and> e r = Some x \<and> agg_take_defined e rs = [Num (Some x)]"
proof -
  from assms have "filter (holds (hl_is_defined e)) rs \<noteq> []"
    by (auto simp: agg_any_def list_ex_iff filter_empty_conv)
  then obtain r rest where f: "filter (holds (hl_is_defined e)) rs = r # rest"
    by (cases "filter (holds (hl_is_defined e)) rs") auto
  then have "r \<in> set (filter (holds (hl_is_defined e)) rs)" by simp
  then have r: "r \<in> set rs" "e r \<noteq> None"
    by (auto simp: holds_def hl_is_defined_def)
  then obtain x where x: "e r = Some x" by auto
  have "agg_take_defined e rs = [Num (Some x)]"
    by (simp add: agg_take_defined_def f x)
  with r x show ?thesis by blast
qed

lemma sex_chr_parts:
  fixes t :: "('n, 'z) vtable_scheme"
  assumes ret: "snd (check_sex_chr_metrics t info_metrics contigs verbose d) = Inr ()"
  defines "xx \<equiv> filter (str_contains (d @ ''XX'')) info_metrics"
  defines "tx \<equiv> t\<lparr>rows := filter (\<lambda>r. contig r = ''chrX'') (rows t)\<rparr>"
  defines "tn \<equiv> table_filter tx (\<lambda>r. Some (in_x_nonpar tx r))"
  shows "''chrY'' \<in> set contigs \<Longrightarrow> snd (y_variant_checks t xx) = Inr ()"
    and "filter_intervals t ''chrX'' = Inr tx"
    and "\<exists>fce. snd (x_nonpar_checks tn (filter (str_contains ''nhomalt'') xx) d []) = Inr fce"
proof -
  from ret obtain tx' where
    y: "snd (if ''chrY'' \<in> set contigs then y_variant_checks t xx else emit []) = Inr ()"
    and x: "filter_intervals t ''chrX'' = Inr tx'"
    and b: "\<exists>fce. snd (x_nonpar_checks (table_filter tx' (\<lambda>r. Some (in_x_nonpar tx' r)))
                 (filter (str_contains ''nhomalt'') xx) d []) = Inr fce"
    unfolding check_sex_chr_metrics_def Let_def snd_then_run_Inr xx_def by auto
  from x have "tx' = tx"
    by (auto simp: filter_intervals_def tx_def split: if_splits)
  with x b show "filter_intervals t ''chrX'' = Inr tx"
    and "\<exists>fce. snd (x_nonpar_checks tn (filter (str_contains ''nhomalt'') xx) d []) = Inr fce"
    by (simp_all add: tn_def)
  assume "''chrY'' \<in> set contigs"
  with y show "snd (y_variant_checks t xx) = Inr ()" by simp
qed

lemma sex_chr_y_lines:
  fixes t :: "('n, 'z) vtable_scheme"
  assumes ret: "snd (check_sex_chr_metrics t info_metrics contigs verbose d) = Inr ()"
    and m: "m \<in> set info_metrics" "str_contains (d @ ''XX'') m"
    and y: "''chrY'' \<in> set contigs"
  shows "y_lines_for m (check_sex_chr_metrics t info_metrics contigs verbose d)
         = [if agg_any (hl_is_defined (\<lambda>r. info r m)) (filter (\<lambda>r. contig r = ''chrY'') (rows t))
            then Log_y_failed m
                   (agg_take_defined (\<lambda>r. info r m) (filter (\<lambda>r. contig r = ''chrY'') (rows t)))
            else Log_y_passed m]"
proof -
  let ?xx = "filter (str_contains (d @ ''XX'')) info_metrics"
  from sex_chr_parts(1) [OF ret y] have ry: "snd (y_variant_checks t ?xx) = Inr ()" .
  from m have mx: "m \<in> set ?xx" by simp
  have sl: "fst (x_nonpar_checks tn xs d [] ) = []"
    for tn :: "('n, 'z) vtable_scheme" and xs
    using x_nonpar_silent [of tn xs d] by (simp add: silent_def)
  have "y_lines_for m (check_sex_chr_metrics t info_metrics contigs verbose d)
        = y_lines_for m (y_variant_checks t ?xx)"
    unfolding check_sex_chr_metrics_def Let_def y_lines_for_def
    by (simp add: filter_then_run y ry emit_def sl no_y_line_loop del: filter_filter
             split: sum.splits)
  with y_checks_lines [OF ry mx] show ?thesis by simp
qed

lemma sex_chr_x_verdict:
  fixes t :: "('n, 'z) vtable_scheme"
  assumes ret: "snd (check_sex_chr_metrics t info_metrics contigs verbose d) = Inr ()"
    and m: "m \<in> set info_metrics" "str_contains (d @ ''XX'') m" "str_contains ''nhomalt'' m"
    and nb: "\<forall>m' \<in> set info_metrics. CHR '' '' \<notin> set m'"
  shows "verdicts_for (m @ '' == '' @ str_remove (d @ ''XX'') m)
           (check_sex_chr_metrics t info_metrics contigs verbose d)
         = [verdict_of (m @ '' == '' @ str_remove (d @ ''XX'') m)
              (int (length (filter
                 (\<lambda>row. \<exists>x y. info row m = Some x
                            \<and> info row (str_remove (d @ ''XX'') m) = Some y \<and> x \<noteq> y)
                 (filter (in_x_nonpar t) (filter (\<lambda>r. contig r = ''chrX'') (rows t))))))]"
proof -
  let ?xx = "filter (str_contains (d @ ''XX'')) info_metrics"
  let ?xn = "filter (str_contains ''nhomalt'') ?xx"
  let ?tx = "t\<lparr>rows := filter (\<lambda>r. contig r = ''chrX'') (rows t)\<rparr>"
  let ?tn = "table_filter ?tx (\<lambda>r. Some (in_x_nonpar ?tx r))"
  let ?std = "str_remove (d @ ''XX'')"
  let ?key = "m @ '' == '' @ ?std m"
  note parts = sex_chr_parts [OF ret]
  from parts(3) obtain fce where b: "snd (x_nonpar_checks ?tn ?xn d []) = Inr fce" by blast
  from x_nonpar_writes [of ?tn ?xn d] b obtain kvs where
    fce: "fce = assigned kvs []"
    and kvs: "set kvs = (\<Union>m\<in>set ?xn. registered (m @ '' == '' @ ?std m)
                       (compare_entry hl_ne ?tn m (?std m)))"
    unfolding writes_def by blast
  have ag: "agg_func v = agg_count_where" if "(k, v) \<in> set kvs" for k v
    using that unfolding kvs registered_def by (auto dest: compare_entry_Inr(2))
  note wf = checks_of_assigned [OF fce ag]
  from m have mx: "m \<in> set ?xn" by simp
  from x_nonpar_entry_returns [OF b mx] obtain v0 where
    "compare_entry hl_ne ?tn m (?std m) = Inr v0" by blast
  with mx have "(?key, v0) \<in> set kvs" unfolding kvs registered_def by blast
  from assigned_key_present [OF this, of "[]"] obtain v where v: "map_of fce ?key = Some v"
    unfolding fce by blast
  then have "(?key, v) \<in> set kvs" unfolding fce by (rule assigned_lookup_in)
  then obtain m' where m': "m' \<in> set ?xn" "m' @ '' == '' @ ?std m' = ?key"
    and v': "compare_entry hl_ne ?tn m' (?std m') = Inr v"
    unfolding kvs registered_def by auto
  from m'(1) m(1) nb have "CHR '' '' \<notin> set m'" "CHR '' '' \<notin> set m" by auto
  from blank_split_inj [OF this] m'(2) have "m' = m" by simp
  with v' have ev: "expr v = hl_ne (\<lambda>row. info row m) (\<lambda>row. info row (?std m))"
    by (simp add: compare_entry_Inr(1))
  have hc: "False \<longrightarrow> (None :: int option) = None" by simp
  have lp: "snd (generic_field_check_loop ?tn fce verbose False None) = Inr ()"
    by (rule generic_field_check_loop_run(1) [OF wf hc])
  have vl: "verdicts (fst (generic_field_check_loop ?tn fce verbose False None))
         = map (\<lambda>(k, v). verdict_of k (agg_count_where (expr v) (rows ?tn))) fce"
    by (rule generic_field_check_loop_run(2) [OF wf hc])
  have sl: "fst (x_nonpar_checks ?tn ?xn d []) = []"
    using x_nonpar_silent [of ?tn ?xn d] by (simp add: silent_def)
  have "verdicts (fst (check_sex_chr_metrics t info_metrics contigs verbose d))
        = map (\<lambda>(k, v). verdict_of k (agg_count_where (expr v) (rows ?tn))) fce"
    unfolding check_sex_chr_metrics_def Let_def
    by (simp add: verdicts_then_run y_checks_no_verdict emit_def parts(1,2) b sl vl
             del: filter_filter)
  then have "verdicts_for ?key (check_sex_chr_metrics t info_metrics contigs verbose d)
        = [verdict_of ?key (agg_count_where (expr v) (rows ?tn))]"
    unfolding verdicts_for_def
    using filter_label_distinct [OF wf(1) v, where f = "\<lambda>v. agg_count_where (expr v) (rows ?tn)"]
    by simp
  moreover have "rows ?tn = filter (in_x_nonpar t) (filter (\<lambda>r. contig r = ''chrX'') (rows t))"
    by (simp add: table_filter_def holds_def in_x_nonpar_def)
  ultimately show ?thesis by (simp only: ev count_where_hl_ne)
qed

text \<open>
  C8, as amended. Take a call of \<^verbatim>\<open>check_sex_chr_metrics\<close> that returns, and an info
  metric whose name carries the XX tag. When chrY is among the contigs, the chrY block prints exactly one line
  about the metric: FAILED, with one example value (the value of the metric at some chrY
  row), when the metric is defined at some chrY row, and PASSED when it is missing at every
  chrY row. When the name also carries nhomalt, exactly one verdict is printed for the entry
  "metric == metric without the tag", and its failure count is the number of chrX rows
  outside the pseudo-autosomal intervals at which the XX count and the overall count are
  both defined and differ; a row where one of them is missing is not counted. For the
  count the info metric names are taken to contain no blank: the checks are kept under their
  labels, and two names with blanks can get the same label.
\<close>

theorem check_sex_chr_metrics_report:
  fixes t :: "('n, 'z) vtable_scheme"
  assumes ret: "snd (check_sex_chr_metrics t info_metrics contigs verbose d) = Inr ()"
    and m: "m \<in> set info_metrics" "str_contains (d @ ''XX'') m"
  shows "(''chrY'' \<in> set contigs \<longrightarrow>
            ((\<exists>row \<in> set (rows t). contig row = ''chrY'' \<and> info row m \<noteq> None) \<longrightarrow>
               (\<exists>row x. row \<in> set (rows t) \<and> contig row = ''chrY'' \<and> info row m = Some x
                  \<and> y_lines_for m (check_sex_chr_metrics t info_metrics contigs verbose d)
                      = [Log_y_failed m [Num (Some x)]]))
          \<and> ((\<forall>row \<in> set (rows t). contig row = ''chrY'' \<longrightarrow> info row m = None) \<longrightarrow>
               y_lines_for m (check_sex_chr_metrics t info_metrics contigs verbose d)
                 = [Log_y_passed m]))
       \<and> (str_contains ''nhomalt'' m \<and> (\<forall>m' \<in> set info_metrics. CHR '' '' \<notin> set m') \<longrightarrow>
            verdicts_for (m @ '' == '' @ str_remove (d @ ''XX'') m)
              (check_sex_chr_metrics t info_metrics contigs verbose d)
            = [verdict_of (m @ '' == '' @ str_remove (d @ ''XX'') m)
                 (int (length (filter
                    (\<lambda>row. contig row = ''chrX'' \<and> in_x_nonpar t row
                       \<and> (\<exists>x y. info row m = Some x
                              \<and> info row (str_remove (d @ ''XX'') m) = Some y \<and> x \<noteq> y))
                    (rows t))))])"
proof (intro conjI impI)
  let ?ys = "filter (\<lambda>r. contig r = ''chrY'') (rows t)"
  let ?run = "check_sex_chr_metrics t info_metrics contigs verbose d"
  {
    assume y: "''chrY'' \<in> set contigs"
      and ex: "\<exists>row \<in> set (rows t). contig row = ''chrY'' \<and> info row m \<noteq> None"
    from ex have any: "agg_any (hl_is_defined (\<lambda>r. info r m)) ?ys"
      by (auto simp: agg_any_def list_ex_iff holds_def hl_is_defined_def)
    from take_defined_any [OF any] obtain r x where
      "r \<in> set ?ys" "info r m = Some x" "agg_take_defined (\<lambda>r. info r m) ?ys = [Num (Some x)]"
      by blast
    with sex_chr_y_lines [OF ret m y] any
    show "\<exists>row x. row \<in> set (rows t) \<and> contig row = ''chrY'' \<and> info row m = Some x
                  \<and> y_lines_for m ?run = [Log_y_failed m [Num (Some x)]]"
      by auto
  }
  {
    assume y: "''chrY'' \<in> set contigs"
      and no: "\<forall>row \<in> set (rows t). contig row = ''chrY'' \<longrightarrow> info row m = None"
    from no have "\<not> agg_any (hl_is_defined (\<lambda>r. info r m)) ?ys"
      by (auto simp: agg_any_def list_ex_iff holds_def hl_is_defined_def)
    with sex_chr_y_lines [OF ret m y] show "y_lines_for m ?run = [Log_y_passed m]"
      by simp
  }
  {
    assume "str_contains ''nhomalt'' m \<and> (\<forall>m' \<in> set info_metrics. CHR '' '' \<notin> set m')"
    then have n: "str_contains ''nhomalt'' m" and nb: "\<forall>m' \<in> set info_metrics. CHR '' '' \<notin> set m'"
      by simp_all
    have "filter (\<lambda>row. \<exists>x y. info row m = Some x
                            \<and> info row (str_remove (d @ ''XX'') m) = Some y \<and> x \<noteq> y)
                 (filter (in_x_nonpar t) (filter (\<lambda>r. contig r = ''chrX'') (rows t)))
        = filter (\<lambda>row. contig row = ''chrX'' \<and> in_x_nonpar t row
                       \<and> (\<exists>x y. info row m = Some x
                              \<and> info row (str_remove (d @ ''XX'') m) = Some y \<and> x \<noteq> y))
                    (rows t)"
      by (simp add: conj_commute conj_left_commute cong: conj_cong)
    with sex_chr_x_verdict [OF ret m n nb]
    show "verdicts_for (m @ '' == '' @ str_remove (d @ ''XX'') m) ?run
            = [verdict_of (m @ '' == '' @ str_remove (d @ ''XX'') m)
                 (int (length (filter
                    (\<lambda>row. contig row = ''chrX'' \<and> in_x_nonpar t row
                       \<and> (\<exists>x y. info row m = Some x
                              \<and> info row (str_remove (d @ ''XX'') m) = Some y \<and> x \<noteq> y))
                    (rows t))))]"
      by simp
  }
qed

theorem check_sex_chr_metrics_report_witness:
  "snd (check_sex_chr_metrics sex_chr_table sex_chr_metrics [''chrX'', ''chrY''] False ''_'')
     = Inr ()
   \<and> y_lines_for ''nhomalt_XX''
         (check_sex_chr_metrics sex_chr_table sex_chr_metrics [''chrX'', ''chrY''] False ''_'')
       = [Log_y_failed ''nhomalt_XX'' [Num (Some 3)]]
   \<and> y_lines_for ''nhomalt_amr_XX''
         (check_sex_chr_metrics sex_chr_table sex_chr_metrics [''chrX'', ''chrY''] False ''_'')
       = [Log_y_passed ''nhomalt_amr_XX'']
   \<and> verdicts_for ''nhomalt_XX == nhomalt''
         (check_sex_chr_metrics sex_chr_table sex_chr_metrics [''chrX'', ''chrY''] False ''_'')
       = [FAILED 1 ''nhomalt_XX == nhomalt'']"
proof -
  let ?run = "check_sex_chr_metrics sex_chr_table sex_chr_metrics [''chrX'', ''chrY''] False ''_''"
  have ret: "snd ?run = Inr ()"
    by code_simp
  have f: "y_lines_for ''nhomalt_XX'' ?run = [Log_y_failed ''nhomalt_XX'' [Num (Some 3)]]"
    by code_simp
  have m1: "''nhomalt_amr_XX'' \<in> set sex_chr_metrics" "str_contains (''_'' @ ''XX'') ''nhomalt_amr_XX''"
    and m2: "''nhomalt_XX'' \<in> set sex_chr_metrics" "str_contains (''_'' @ ''XX'') ''nhomalt_XX''"
    by (simp_all add: sex_chr_metrics_def)
  have no: "\<forall>row \<in> set (rows sex_chr_table). contig row = ''chrY'' \<longrightarrow> info row ''nhomalt_amr_XX'' = None"
    by (simp add: sex_chr_table_def sex_chr_row_def)
  have nb: "str_contains ''nhomalt'' ''nhomalt_XX''
            \<and> (\<forall>m' \<in> set sex_chr_metrics. CHR '' '' \<notin> set m')"
    by (simp add: sex_chr_metrics_def)
  have n: "int (length (filter
                    (\<lambda>row. contig row = ''chrX'' \<and> in_x_nonpar sex_chr_table row
                       \<and> (\<exists>x y. info row ''nhomalt_XX'' = Some x
                              \<and> info row ''nhomalt'' = Some y \<and> x \<noteq> y))
                    (rows sex_chr_table))) = 1"
    by (simp add: sex_chr_table_def sex_chr_row_def in_x_nonpar_def)
  have sr: "str_remove (''_'' @ ''XX'') ''nhomalt_XX'' = ''nhomalt''"
    by simp
  from check_sex_chr_metrics_report [OF ret m1] no
  have p: "y_lines_for ''nhomalt_amr_XX'' ?run = [Log_y_passed ''nhomalt_amr_XX'']"
    by simp
  from check_sex_chr_metrics_report [OF ret m2] nb
  have "verdicts_for (''nhomalt_XX'' @ '' == '' @ str_remove (''_'' @ ''XX'') ''nhomalt_XX'') ?run
            = [verdict_of (''nhomalt_XX'' @ '' == '' @ str_remove (''_'' @ ''XX'') ''nhomalt_XX'')
                 (int (length (filter
                    (\<lambda>row. contig row = ''chrX'' \<and> in_x_nonpar sex_chr_table row
                       \<and> (\<exists>x y. info row ''nhomalt_XX'' = Some x
                              \<and> info row (str_remove (''_'' @ ''XX'') ''nhomalt_XX'') = Some y \<and> x \<noteq> y))
                    (rows sex_chr_table))))]"
    by blast
  then have v: "verdicts_for ''nhomalt_XX == nhomalt'' ?run = [FAILED 1 ''nhomalt_XX == nhomalt'']"
    unfolding sr n by (simp add: verdict_of_def)
  from ret f p v show ?thesis by (intro conjI)
qed

text \<open>
  C8 as stated fails: the one row of the table above is on chrX outside the pseudo-autosomal
  intervals and has the overall homozygote count 3 and no XX count, so that the two differ
  at it, and no failure is reported.
\<close>

theorem check_sex_chr_metrics_missing_counterexample:
  "snd (check_sex_chr_metrics missing_xx_table sex_chr_metrics [''chrX'', ''chrY''] False ''_'')
     = Inr ()
   \<and> verdicts_for ''nhomalt_XX == nhomalt''
         (check_sex_chr_metrics missing_xx_table sex_chr_metrics [''chrX'', ''chrY''] False ''_'')
       = [PASSED ''nhomalt_XX == nhomalt'']
   \<and> rows missing_xx_table = [missing_xx_row]
   \<and> contig missing_xx_row = ''chrX''
   \<and> in_x_nonpar missing_xx_table missing_xx_row
   \<and> info missing_xx_row ''nhomalt_XX'' = None
   \<and> info missing_xx_row ''nhomalt'' = Some 3
   \<and> info missing_xx_row ''nhomalt_XX'' \<noteq> info missing_xx_row ''nhomalt''"
proof -
  have "snd (check_sex_chr_metrics missing_xx_table sex_chr_metrics [''chrX'', ''chrY''] False
               ''_'') = Inr ()"
    by code_simp
  moreover have "verdicts_for ''nhomalt_XX == nhomalt''
         (check_sex_chr_metrics missing_xx_table sex_chr_metrics [''chrX'', ''chrY''] False ''_'')
       = [PASSED ''nhomalt_XX == nhomalt'']"
    by code_simp
  moreover have "rows missing_xx_table = [missing_xx_row]"
    by (simp add: missing_xx_table_def)
  moreover have "contig missing_xx_row = ''chrX'' \<and> in_x_nonpar missing_xx_table missing_xx_row"
    by (simp add: missing_xx_row_def sex_chr_row_def in_x_nonpar_def missing_xx_table_def
          sex_chr_table_def)
  moreover have "info missing_xx_row ''nhomalt_XX'' = None
                 \<and> info missing_xx_row ''nhomalt'' = Some 3"
    by (simp add: missing_xx_row_def sex_chr_row_def)
  ultimately show ?thesis by (intro conjI) simp_all
qed

text \<open>
  Why the names are taken to have no blank: with the delimiter and the two names above, both
  checks get the same label, the second replaces the first in the dict, and the one verdict
  under the label is that of the second, PASSED, while the counts of the first name differ
  at the row.
\<close>

lemma labels_coincide:
  "blank_metric \<noteq> blank_metric_longer
   \<and> blank_metric @ '' == '' @ str_remove (blank_delimiter @ ''XX'') blank_metric
       = blank_metric_longer @ '' == ''
           @ str_remove (blank_delimiter @ ''XX'') blank_metric_longer
   \<and> verdicts_for (blank_metric @ '' == '' @ str_remove (blank_delimiter @ ''XX'') blank_metric)
         (check_sex_chr_metrics blank_table [blank_metric, blank_metric_longer] [''chrX'']
            False blank_delimiter)
       = [PASSED (blank_metric @ '' == ''
                    @ str_remove (blank_delimiter @ ''XX'') blank_metric)]
   \<and> length (filter
         (\<lambda>row. contig row = ''chrX'' \<and> in_x_nonpar blank_table row
            \<and> (\<exists>x y. info row blank_metric = Some x
                   \<and> info row (str_remove (blank_delimiter @ ''XX'') blank_metric) = Some y
                   \<and> x \<noteq> y))
         (rows blank_table)) = 1"
proof -
  have 1: "blank_metric \<noteq> blank_metric_longer" by code_simp
  have 2: "blank_metric @ '' == '' @ str_remove (blank_delimiter @ ''XX'') blank_metric
       = blank_metric_longer @ '' == ''
           @ str_remove (blank_delimiter @ ''XX'') blank_metric_longer" by code_simp
  have 3: "verdicts_for (blank_metric @ '' == '' @ str_remove (blank_delimiter @ ''XX'') blank_metric)
         (check_sex_chr_metrics blank_table [blank_metric, blank_metric_longer] [''chrX'']
            False blank_delimiter)
       = [PASSED (blank_metric @ '' == ''
                    @ str_remove (blank_delimiter @ ''XX'') blank_metric)]" by code_simp
  have r: "str_remove (blank_delimiter @ ''XX'') blank_metric = ''nhomaltXX == nhomaltXX == ''"
    by code_simp
  have 4: "length (filter
         (\<lambda>row. contig row = ''chrX'' \<and> in_x_nonpar blank_table row
            \<and> (\<exists>x y. info row blank_metric = Some x
                   \<and> info row (str_remove (blank_delimiter @ ''XX'') blank_metric) = Some y
                   \<and> x \<noteq> y))
         (rows blank_table)) = 1"
    unfolding r
    by (simp add: blank_table_def sex_chr_row_def in_x_nonpar_def sex_chr_table_def
          blank_metric_def blank_metric_longer_def blank_delimiter_def)
  from 1 2 3 4 show ?thesis by (intro conjI)
qed

section \<open>The label groups lose their group key\<close>

lemma dict_pop_absent:
  assumes "k \<notin> fst ` set d" shows "dict_pop d k = Inl KeyError"
proof -
  from assms have "map_of d k = None" by (simp add: map_of_eq_None_iff)
  then show ?thesis by (simp add: dict_pop_def)
qed

lemma dict_pop_present:
  "dict_pop d k = Inr (v, d') \<Longrightarrow> d' = AList.delete k d \<and> map_of d k = Some v"
  by (auto simp: dict_pop_def split: option.splits)

lemma group_popped:
  assumes "make_label_combos lg d = Inr combos"
  shows "''group'' \<notin> fst ` set (fst (make_group_sum_expr_dict make_label_combos hse t sub lg so d mff
                                        metrics))"
proof (cases "dict_pop lg ''group''")
  case (Inl e)
  then have "''group'' \<notin> fst ` set lg"
    by (auto simp: dict_pop_def map_of_eq_None_iff split: option.splits)
  with assms Inl show ?thesis
    by (simp add: make_group_sum_expr_dict_def Let_def)
next
  case (Inr p)
  obtain v lg' where p: "p = (v, lg')" by (cases p)
  with Inr have "lg' = AList.delete ''group'' lg" by (simp add: dict_pop_present)
  then have "''group'' \<notin> fst ` set lg'" by (simp add: delete_notin_dom)
  with assms Inr p show ?thesis
    by (simp add: make_group_sum_expr_dict_def Let_def)
qed

lemma group_missing_key_error:
  assumes "make_label_combos lg d = Inr combos" "''group'' \<notin> fst ` set lg"
  shows "snd (make_group_sum_expr_dict make_label_combos hse t sub lg so d mff metrics)
         = ([], Inl KeyError)"
  using assms by (simp add: make_group_sum_expr_dict_def dict_pop_absent Let_def)

text \<open>
  C10. \<^verbatim>\<open>make_group_sum_expr_dict\<close> changes the caller's \<^verbatim>\<open>label_groups\<close>: the first component
  of the model's result is the dict after the call. Whenever \<^verbatim>\<open>make_label_combos\<close> returns on
  the dict passed in (it is called before the \<^verbatim>\<open>pop\<close>), the dict no longer has the key
  \<^verbatim>\<open>group\<close> after the call, however the call ends, and it is the dict passed in without
  that key when it had it; a call on a dict without the key raises KeyError and returns no
  checks; so does a second call on the dict that a first call has left, whatever its
  other arguments are.
\<close>

theorem make_group_sum_expr_dict_pops_group:
  "(make_label_combos lg d = Inr combos \<longrightarrow>
      ''group'' \<notin> fst ` set (fst (make_group_sum_expr_dict make_label_combos hse t sub lg so d mff
                                        metrics)))
   \<and> (make_label_combos lg d = Inr combos \<and> ''group'' \<in> fst ` set lg \<longrightarrow>
        fst (make_group_sum_expr_dict make_label_combos hse t sub lg so d mff metrics)
          = AList.delete ''group'' lg)
   \<and> (make_label_combos lg d = Inr combos \<and> ''group'' \<notin> fst ` set lg \<longrightarrow>
        snd (make_group_sum_expr_dict make_label_combos hse t sub lg so d mff metrics)
          = ([], Inl KeyError))
   \<and> (make_label_combos lg d = Inr combos
        \<and> make_label_combos
             (fst (make_group_sum_expr_dict make_label_combos hse t sub lg so d mff metrics)) d'
            = Inr combos' \<longrightarrow>
        snd (make_group_sum_expr_dict make_label_combos hse' t' sub'
               (fst (make_group_sum_expr_dict make_label_combos hse t sub lg so d mff metrics))
               so' d' mff' metrics')
          = ([], Inl KeyError))"
proof (intro conjI impI)
  assume "make_label_combos lg d = Inr combos"
  then show "''group'' \<notin> fst ` set (fst (make_group_sum_expr_dict make_label_combos hse t sub lg
                                              so d mff metrics))"
    by (rule group_popped)
next
  assume a: "make_label_combos lg d = Inr combos \<and> ''group'' \<in> fst ` set lg"
  then obtain v where "map_of lg ''group'' = Some v"
    by (metis domD dom_map_of_conv_image_fst)
  with a show "fst (make_group_sum_expr_dict make_label_combos hse t sub lg so d mff metrics)
          = AList.delete ''group'' lg"
    by (simp add: make_group_sum_expr_dict_def dict_pop_def Let_def)
next
  assume "make_label_combos lg d = Inr combos \<and> ''group'' \<notin> fst ` set lg"
  then show "snd (make_group_sum_expr_dict make_label_combos hse t sub lg so d mff metrics)
          = ([], Inl KeyError)"
    by (simp add: group_missing_key_error)
next
  assume a: "make_label_combos lg d = Inr combos
        \<and> make_label_combos
             (fst (make_group_sum_expr_dict make_label_combos hse t sub lg so d mff metrics)) d'
            = Inr combos'"
  then have "''group'' \<notin> fst ` set (fst (make_group_sum_expr_dict make_label_combos hse t sub lg
                                              so d mff metrics))"
    by (simp add: group_popped)
  with a show "snd (make_group_sum_expr_dict make_label_combos hse' t' sub'
               (fst (make_group_sum_expr_dict make_label_combos hse t sub lg so d mff metrics))
               so' d' mff' metrics')
          = ([], Inl KeyError)"
    by (simp add: group_missing_key_error)
qed

theorem make_group_sum_expr_dict_pops_group_witness:
  "pop_label_combos pop_label_groups ''-'' = Inr [''adj-afr'', ''adj-amr'', ''adj-nfe'']
   \<and> ''group'' \<in> fst ` set pop_label_groups
   \<and> fst (make_group_sum_expr_dict pop_label_combos (Inl TypeError) pop_table ''''
            pop_label_groups [''group'', ''pop'', ''sex''] ''-'' True [''AC'', ''AN''])
       = [(''pop'', [''afr'', ''amr'', ''nfe''])]
   \<and> ''group'' \<notin> fst ` set (fst (make_group_sum_expr_dict pop_label_combos (Inl TypeError)
            pop_table '''' pop_label_groups [''group'', ''pop'', ''sex''] ''-'' True
            [''AC'', ''AN'']))
   \<and> pop_label_combos [(''pop'', [''afr'', ''amr'', ''nfe''])] ''-''
       = Inr [''afr'', ''amr'', ''nfe'']
   \<and> snd (make_group_sum_expr_dict pop_label_combos (Inl TypeError) pop_table ''''
            (fst (make_group_sum_expr_dict pop_label_combos (Inl TypeError) pop_table ''''
                    pop_label_groups [''group'', ''pop'', ''sex''] ''-'' True [''AC'', ''AN'']))
            [''group'', ''pop'', ''sex''] ''-'' True [''AC'', ''AN''])
       = ([], Inl KeyError)"
proof -
  let ?call = "make_group_sum_expr_dict pop_label_combos (Inl TypeError) pop_table ''''
            pop_label_groups [''group'', ''pop'', ''sex''] ''-'' True [''AC'', ''AN'']"
  have c: "pop_label_combos pop_label_groups ''-'' = Inr [''adj-afr'', ''adj-amr'', ''adj-nfe'']"
    by (simp add: pop_label_combos_def pop_label_groups_def)
  have g: "''group'' \<in> fst ` set pop_label_groups"
    by (simp add: pop_label_groups_def)
  have dl: "AList.delete ''group'' pop_label_groups = [(''pop'', [''afr'', ''amr'', ''nfe''])]"
    by (simp add: pop_label_groups_def)
  have c2: "pop_label_combos [(''pop'', [''afr'', ''amr'', ''nfe''])] ''-''
       = Inr [''afr'', ''amr'', ''nfe'']"
    by (simp add: pop_label_combos_def)
  note th = make_group_sum_expr_dict_pops_group
      [of pop_label_combos pop_label_groups "''-''" "[''adj-afr'', ''adj-amr'', ''adj-nfe'']"
          "Inl TypeError" pop_table "''''" "[''group'', ''pop'', ''sex'']" True "[''AC'', ''AN'']"
          "''-''" "[''afr'', ''amr'', ''nfe'']" "Inl TypeError" pop_table "''''"
          "[''group'', ''pop'', ''sex'']" True "[''AC'', ''AN'']"]
  from th c g have f: "fst ?call = [(''pop'', [''afr'', ''amr'', ''nfe''])]"
    by (simp add: dl)
  from th c have n: "''group'' \<notin> fst ` set (fst ?call)" by blast
  from th c c2 f have k: "snd (make_group_sum_expr_dict pop_label_combos (Inl TypeError) pop_table ''''
            (fst ?call) [''group'', ''pop'', ''sex''] ''-'' True [''AC'', ''AN''])
       = ([], Inl KeyError)"
    by simp
  from c g f n c2 k show ?thesis by (intro conjI)
qed

section \<open>Sums over label groups skip absent fields\<close>





lemma fold_update_assigned:
  "fold (\<lambda>x. AList.update (k x) (v x)) xs s = assigned (map (\<lambda>x. (k x, v x)) xs) s"
  by (induction xs arbitrary: s) (simp_all add: assigned_def)







section \<open>Missingness of a nested struct\<close>

lemma all_missing_holds:
  "is_collection (e r) \<Longrightarrow>
   holds (hl_or_else (hl_all (\<lambda>x. Some (x = None)) e) True) r = collection_counts_missing (e r)"
  by (cases "e r" rule: collection_counts_missing.cases)
     (auto simp: holds_def hl_or_else_def hl_all_def kleene_all_def list_all_iff)

lemma is_missing_holds: "holds (hl_is_missing e) r = (e r = None)"
  by (simp add: holds_def hl_is_missing_def)

lemma collection_fraction:
  assumes "rs \<noteq> []" and "\<forall>r \<in> set rs. is_collection (e r)"
  shows "agg_fraction (hl_or_else (hl_all (\<lambda>x. Some (x = None)) e) True) rs
         = Some (fraction_of (\<lambda>r. collection_counts_missing (e r)) rs)"
proof -
  have "filter (holds (hl_or_else (hl_all (\<lambda>x. Some (x = None)) e) True)) rs
        = filter (\<lambda>r. collection_counts_missing (e r)) rs"
    using assms(2) by (intro filter_cong refl) (simp add: all_missing_holds)
  with assms(1) show ?thesis by (simp add: agg_fraction_def fraction_of_def)
qed

lemma scalar_fraction:
  "rs \<noteq> [] \<Longrightarrow> agg_fraction (hl_is_missing e) rs = Some (fraction_of (\<lambda>r. e r = None) rs)"
  by (simp add: agg_fraction_def fraction_of_def is_missing_holds[abs_def])

lemma agg_fraction_bounds:
  assumes "rs \<noteq> []"
  shows "\<exists>q. agg_fraction p rs = Some q \<and> 0 \<le> q \<and> q \<le> 1"
proof -
  have "length (filter (holds p) rs) \<le> length rs" by (rule length_filter_le)
  hence "(of_nat (length (filter (holds p) rs)) :: rat) \<le> of_nat (length rs)"
    by (simp only: of_nat_le_iff)
  moreover have "(0::rat) < of_nat (length rs)" using assms by simp
  ultimately have "(of_nat (length (filter (holds p) rs)) :: rat) / of_nat (length rs) \<le> 1"
    by (simp add: divide_le_eq_1)
  thus ?thesis using assms by (simp add: agg_fraction_def)
qed

lemma leaves_are_fractions:
  "a \<in> set_mtree (check_missingness_of_struct ty e prefix) \<Longrightarrow> \<exists>p. a = agg_fraction p"
proof (induction ty e prefix rule: check_missingness_of_struct.induct)
  case (1 fs struct_expr prefix)
  then show ?case by (auto simp: image_iff) 
qed auto

lemma computed_fraction_bounds:
  assumes "rows ht \<noteq> []"
      and "v \<in> set_mtree (aggregate_tree ht (check_missingness_of_struct ty e prefix))"
  shows "\<exists>q. v = Some q \<and> 0 \<le> q \<and> q \<le> 1"
proof -
  from assms(2) obtain a where "a \<in> set_mtree (check_missingness_of_struct ty e prefix)"
    and v: "v = a (rows ht)"
    by (auto simp: aggregate_tree_def mtree.set_map)
  then obtain p where "a = agg_fraction p" using leaves_are_fractions by blast
  with v agg_fraction_bounds[OF assms(1)] show ?thesis by simp
qed


lemma update_values: "snd ` set (AList.update k v d) \<subseteq> insert v (snd ` set d)"
  by (induction d) auto

lemma fold_update_values:
  "snd ` set (fold (\<lambda>(k, v). AList.update k v) kvs d) \<subseteq> snd ` set kvs \<union> snd ` set d"
proof (induction kvs arbitrary: d)
  case Nil show ?case by simp
next
  case (Cons kv kvs)
  obtain k v where kv: "kv = (k, v)" by (cases kv)
  have "snd ` set (fold (\<lambda>(k, v). AList.update k v) kvs (AList.update k v d))
        \<subseteq> snd ` set kvs \<union> insert v (snd ` set d)"
    using Cons[of "AList.update k v d"] update_values[of k v d] by blast
  thus ?case unfolding kv by simp
qed

lemma subset_step: "A \<subseteq> T \<union> D \<Longrightarrow> B \<subseteq> U \<union> A \<Longrightarrow> B \<subseteq> (T \<union> U) \<union> D"
  by blast

lemma subset_merge: "F \<subseteq> U \<Longrightarrow> X \<subseteq> F \<union> D \<Longrightarrow> X \<subseteq> U \<union> D"
  by blast

lemma set_mtree_Node: "set_mtree (Node items) = (\<Union>(k, t) \<in> set items. set_mtree t)"
  by (auto simp: snds.simps) 

lemma fold_flatten_values:
  assumes "\<And>k t d. (k, t) \<in> set items \<Longrightarrow>
             snd ` set (flatten_value k t d) \<subseteq> set_mtree t \<union> snd ` set (d :: (string \<times> 'a) list)"
  shows "snd ` set (fold (\<lambda>(k, v). flatten_value k v) items d)
        \<subseteq> (\<Union>(k, t) \<in> set items. set_mtree t) \<union> snd ` set d"
  using assms
proof (induction items arbitrary: d)
  case Nil show ?case by simp
next
  case (Cons kt items)
  obtain k t where kt: "kt = (k, t)" by (cases kt)
  have 1: "snd ` set (flatten_value k t d) \<subseteq> set_mtree t \<union> snd ` set d"
    using Cons.prems[of k t d] by (simp add: kt)
  have 2: "snd ` set (fold (\<lambda>(k, v). flatten_value k v) items (flatten_value k t d))
        \<subseteq> (\<Union>(k, t) \<in> set items. set_mtree t) \<union> snd ` set (flatten_value k t d)"
    by (rule Cons.IH) (simp add: Cons.prems)
  have 3: "(\<Union>(k, t) \<in> set (kt # items). set_mtree t)
           = set_mtree t \<union> (\<Union>(k, t) \<in> set items. set_mtree t)"
    unfolding kt by simp
  have 4: "fold (\<lambda>(k, v). flatten_value k v) (kt # items) d
           = fold (\<lambda>(k, v). flatten_value k v) items (flatten_value k t d)"
    unfolding kt by simp
  show ?case unfolding 3 4 by (rule subset_step[OF 1 2])
qed

lemma flatten_value_values:
  "snd ` set (flatten_value key t d) \<subseteq> set_mtree t \<union> snd ` set d"
proof (induction key t d rule: flatten_value.induct)
  case (1 key x d)
  show ?case using update_values[of key x d] by simp
next
  case (2 key items d)
  have "snd ` set (fold (\<lambda>(k, v). flatten_value k v) items [])
        \<subseteq> (\<Union>(k, t) \<in> set items. set_mtree t) \<union> snd ` set ([] :: (string \<times> 'a) list)"
    by (rule fold_flatten_values) (rule 2, simp_all)
  hence "snd ` set (fold (\<lambda>(k, v). flatten_value k v) items [])
        \<subseteq> (\<Union>(k, t) \<in> set items. set_mtree t)"
    by simp
  thus ?case unfolding set_mtree_Node flatten_value.simps
    by (rule subset_merge) (rule fold_update_values)
qed

lemma flatten_missingness_struct_values:
  assumes "flatten_missingness_struct t = Inr d"
  shows "snd ` set d \<subseteq> set_mtree t"
proof (cases t)
  case (Leaf x) with assms show ?thesis by (simp add: flatten_missingness_struct_def)
next
  case (Node items)
  have "snd ` set (fold (\<lambda>(k, v). flatten_value k v) items [])
        \<subseteq> (\<Union>(k, t) \<in> set items. set_mtree t) \<union> snd ` set ([] :: (string \<times> 'a) list)"
    by (rule fold_flatten_values) (rule flatten_value_values)
  moreover have "d = fold (\<lambda>(k, v). flatten_value k v) items []"
    using assms Node by (simp add: flatten_missingness_struct_def)
  ultimately show ?thesis unfolding Node set_mtree_Node by simp
qed



lemma struct_table_fractions:
  "flatten_missingness_struct
     (aggregate_tree struct_table (check_missingness_of_struct struct_s_type struct_s ''s''))
   = Inr [(''s.a'', Some 0), (''s.b'', Some (1 / 5)), (''s.c.d'', Some (3 / 5)),
          (''s.c.e'', Some (2 / 5)), (''s.c.f'', Some (3 / 5))]"
  by code_simp

text \<open>
  Claim C5. Over a table with at least one row, \<^verbatim>\<open>check_missingness_of_struct\<close> gives for a
  leaf of array or set type the fraction of the rows at which the field is absent, empty,
  or has missing elements only, and for a scalar leaf the fraction of the rows at which
  the field is absent. On the five rows of the test's nested struct the flattened fractions
  are 0 for \<open>s.a\<close>, 1/5 for \<open>s.b\<close>, 3/5 for \<open>s.c.d\<close>, 2/5 for \<open>s.c.e\<close> and 3/5 for \<open>s.c.f\<close>.
  Every fraction computed, in the nested result and in the flattened one, is a number
  from 0 to 1.
\<close>

theorem check_missingness_of_struct_fractions:
  fixes struct_expr :: "('r, hval) expr" and ht :: "('r, 'z) table_scheme"
  assumes "rows ht \<noteq> []"
  shows "((\<forall>r \<in> set (rows ht). is_collection (struct_expr r)) \<longrightarrow>
            aggregate_tree ht (check_missingness_of_struct (TArray elem) struct_expr prefix)
              = Leaf (Some (fraction_of (\<lambda>r. collection_counts_missing (struct_expr r)) (rows ht)))
          \<and> aggregate_tree ht (check_missingness_of_struct (TSet elem) struct_expr prefix)
              = Leaf (Some (fraction_of (\<lambda>r. collection_counts_missing (struct_expr r)) (rows ht))))
       \<and> (scalar \<in> {TInt, TFloat, TStr} \<longrightarrow>
            aggregate_tree ht (check_missingness_of_struct scalar struct_expr prefix)
              = Leaf (Some (fraction_of (\<lambda>r. struct_expr r = None) (rows ht))))
       \<and> flatten_missingness_struct
            (aggregate_tree struct_table (check_missingness_of_struct struct_s_type struct_s ''s''))
          = Inr [(''s.a'', Some 0), (''s.b'', Some (1 / 5)), (''s.c.d'', Some (3 / 5)),
                 (''s.c.e'', Some (2 / 5)), (''s.c.f'', Some (3 / 5))]
       \<and> (\<forall>v \<in> set_mtree (aggregate_tree ht (check_missingness_of_struct ty struct_expr prefix)).
             \<exists>q. v = Some q \<and> 0 \<le> q \<and> q \<le> 1)
       \<and> (\<forall>d. flatten_missingness_struct
                  (aggregate_tree ht (check_missingness_of_struct ty struct_expr prefix)) = Inr d
              \<longrightarrow> (\<forall>(k, v) \<in> set d. \<exists>q. v = Some q \<and> 0 \<le> q \<and> q \<le> 1))"
proof (intro conjI impI allI)
  assume c: "\<forall>r \<in> set (rows ht). is_collection (struct_expr r)"
  show "aggregate_tree ht (check_missingness_of_struct (TArray elem) struct_expr prefix)
        = Leaf (Some (fraction_of (\<lambda>r. collection_counts_missing (struct_expr r)) (rows ht)))"
    by (simp add: aggregate_tree_def collection_fraction[OF assms c])
  show "aggregate_tree ht (check_missingness_of_struct (TSet elem) struct_expr prefix)
        = Leaf (Some (fraction_of (\<lambda>r. collection_counts_missing (struct_expr r)) (rows ht)))"
    by (simp add: aggregate_tree_def collection_fraction[OF assms c])
next
  assume "scalar \<in> {TInt, TFloat, TStr}"
  thus "aggregate_tree ht (check_missingness_of_struct scalar struct_expr prefix)
        = Leaf (Some (fraction_of (\<lambda>r. struct_expr r = None) (rows ht)))"
    using scalar_fraction[OF assms, of struct_expr] by (auto simp: aggregate_tree_def)
next
  show "flatten_missingness_struct
          (aggregate_tree struct_table (check_missingness_of_struct struct_s_type struct_s ''s''))
        = Inr [(''s.a'', Some 0), (''s.b'', Some (1 / 5)), (''s.c.d'', Some (3 / 5)),
               (''s.c.e'', Some (2 / 5)), (''s.c.f'', Some (3 / 5))]"
    by (rule struct_table_fractions)
next
  show "\<forall>v \<in> set_mtree (aggregate_tree ht (check_missingness_of_struct ty struct_expr prefix)).
          \<exists>q. v = Some q \<and> 0 \<le> q \<and> q \<le> 1"
    using computed_fraction_bounds[OF assms] by blast
next
  fix d
  assume "flatten_missingness_struct
            (aggregate_tree ht (check_missingness_of_struct ty struct_expr prefix)) = Inr d"
  hence "snd ` set d
         \<subseteq> set_mtree (aggregate_tree ht (check_missingness_of_struct ty struct_expr prefix))"
    by (rule flatten_missingness_struct_values)
  hence "\<forall>v \<in> snd ` set d. \<exists>q. v = Some q \<and> 0 \<le> q \<and> q \<le> 1"
    using computed_fraction_bounds[OF assms] by blast
  thus "\<forall>(k, v) \<in> set d. \<exists>q. v = Some q \<and> 0 \<le> q \<and> q \<le> 1"
    by force
qed

theorem check_missingness_of_struct_fractions_witness:
  "rows struct_table \<noteq> []
   \<and> list_all (\<lambda>r. is_collection (hl_field (hl_field struct_s ''c'') ''d'' r)) (rows struct_table)
   \<and> map (\<lambda>r. collection_counts_missing (hl_field (hl_field struct_s ''c'') ''d'' r))
         (rows struct_table) = [True, False, True, False, True]
   \<and> aggregate_tree struct_table
         (check_missingness_of_struct (TArray TStr) (hl_field (hl_field struct_s ''c'') ''d'')
            ''s.c.d'')
       = Leaf (Some (3 / 5))
   \<and> aggregate_tree struct_table
         (check_missingness_of_struct TStr (hl_field (hl_field struct_s ''c'') ''d'') ''s.c.d'')
       = Leaf (Some (1 / 5))"
proof -
  let ?d = "hl_field (hl_field struct_s ''c'') ''d''"
  have ne: "rows struct_table \<noteq> []" by (simp add: struct_table_def)
  have coll: "\<forall>r \<in> set (rows struct_table). is_collection (?d r)" by code_simp
  have cm: "map (\<lambda>r. collection_counts_missing (?d r)) (rows struct_table)
            = [True, False, True, False, True]" by code_simp
  have f1: "fraction_of (\<lambda>r. collection_counts_missing (?d r)) (rows struct_table) = 3 / 5"
    by code_simp
  have f2: "fraction_of (\<lambda>r. ?d r = None) (rows struct_table) = 1 / 5"
    by code_simp
  have s: "TStr \<in> {TInt, TFloat, TStr}" by simp
  from check_missingness_of_struct_fractions[OF ne, of ?d TStr "''s.c.d''" TStr TStr]
       coll cm f1 f2 s ne
  show ?thesis by (simp only: list_all_iff) simp
qed

section \<open>Unfurling arrays of structs\<close>

lemma update_fresh: "k \<notin> fst ` set d \<Longrightarrow> AList.update k v d = d @ [(k, v)]"
  by (induction d) auto

lemma assigned_fresh:
  "distinct (map fst (d @ kvs)) \<Longrightarrow> assigned kvs d = d @ kvs"
proof (induction kvs arbitrary: d)
  case Nil show ?case by (simp add: assigned_def)
next
  case (Cons kv kvs)
  obtain k v where kv: "kv = (k, v)" by (cases kv)
  from Cons.prems have fresh: "k \<notin> fst ` set d" unfolding kv by auto
  from Cons.prems have "distinct (map fst ((d @ [(k, v)]) @ kvs))" unfolding kv by simp
  hence "assigned kvs (d @ [(k, v)]) = (d @ [(k, v)]) @ kvs" by (rule Cons.IH)
  thus ?case unfolding kv by (simp add: assigned_def update_fresh[OF fresh])
qed

lemma try_each_index_dict:
  "try_each index_dict
     (\<lambda>(k, i) expr_dict.
        bind_err (element_struct_keys (TArray (TStruct fs)))
          (\<lambda>keys. Inr (fold (\<lambda>f. AList.update (f @ ''_'' @ k)
                               (hl_get_field (hl_index (hl_field Some array) i) f))
                          keys expr_dict)))
     d
   = Inr (assigned (one_per_pair array (map fst fs) index_dict) d)"
  (is "try_each _ ?body _ = _")
proof (induction index_dict arbitrary: d)
  case Nil show ?case by (simp add: one_per_pair_def assigned_def)
next
  case (Cons ki index_dict)
  obtain k i where ki: "ki = (k, i)" by (cases ki)
  let ?new = "map (\<lambda>f. (f @ ''_'' @ k, hl_get_field (hl_index (hl_field Some array) i) f))
                (map fst fs)"
  have split: "one_per_pair array (map fst fs) (ki # index_dict)
               = ?new @ one_per_pair array (map fst fs) index_dict"
    unfolding ki by (simp add: one_per_pair_def)
  have "try_each (ki # index_dict) ?body d
        = try_each index_dict ?body
            (fold (\<lambda>f. AList.update (f @ ''_'' @ k)
                         (hl_get_field (hl_index (hl_field Some array) i) f)) (map fst fs) d)"
    by (simp only: ki try_each.simps case_prod_conv element_struct_keys.simps bind_err_def
          sum.case)
  also have "\<dots> = try_each index_dict ?body (assigned ?new d)"
    by (simp only: fold_update_assigned)
  also have "\<dots> = Inr (assigned (one_per_pair array (map fst fs) index_dict) (assigned ?new d))"
    by (rule Cons.IH)
  finally show ?case by (simp only: split assigned_append)
qed

lemma unfurl_single:
  assumes "map_of (row_type ht) array = Some (TArray (TStruct fs))"
      and "map_of (globals ht) name = Some index_dict"
  shows "unfurl_array_annotations ht [(array, name)]
         = Inr (assigned (one_per_pair array (map fst fs) (hl_eval_dict index_dict)) [])"
  by (simp only: unfurl_array_annotations_def try_each.simps case_prod_conv assms option.case
        try_each_index_dict)
     (simp only: bind_err_def sum.case try_each.simps)

lemma try_each_fails:
  assumes "x \<in> set xs" and "\<And>s. \<exists>e. body x s = Inl e"
  shows "\<exists>e. try_each xs body s = Inl e"
  using assms(1)
proof (induction xs arbitrary: s)
  case Nil thus ?case by simp
next
  case (Cons y ys)
  show ?case
  proof (cases "body y s")
    case (Inl e) thus ?thesis by (simp add: bind_err_def)
  next
    case (Inr s')
    show ?thesis
    proof (cases "x = y")
      case True with assms(2)[of s] Inr show ?thesis by simp
    next
      case False
      with Cons.prems have "x \<in> set ys" by simp
      from Cons.IH[OF this, of s'] Inr show ?thesis by (simp add: bind_err_def)
    qed
  qed
qed

lemma map_of_None_iff: "map_of xs k = None \<longleftrightarrow> k \<notin> fst ` set xs"
  by (simp add: map_of_eq_None_iff)

lemma unfurl_absent:
  assumes "(array, name) \<in> set indexed_array_annotations"
      and "array \<notin> fst ` set (row_type ht) \<or> name \<notin> fst ` set (globals ht)"
  shows "\<exists>e. unfurl_array_annotations ht indexed_array_annotations = Inl e"
  unfolding unfurl_array_annotations_def
proof (rule try_each_fails[OF assms(1)])
  fix s :: "(string, hval \<Rightarrow> error + hval option) dict"
  from assms(2) have "map_of (row_type ht) array = None \<or> map_of (globals ht) name = None"
    by (simp add: map_of_None_iff)
  thus "\<exists>e. (case (array, name) of
              (array, array_index_dict) \<Rightarrow> \<lambda>expr_dict.
                 case map_of (row_type ht) array of
                   None \<Rightarrow> Inl ValueError
                 | Some array_type \<Rightarrow>
                     (case map_of (globals ht) array_index_dict of
                        None \<Rightarrow> Inl ValueError
                      | Some index_dict \<Rightarrow>
                          try_each (hl_eval_dict index_dict)
                            (\<lambda>(k, i) expr_dict.
                               bind_err (element_struct_keys array_type)
                                 (\<lambda>keys. Inr (fold (\<lambda>f. AList.update (f @ ''_'' @ k)
                                       (hl_get_field (hl_index (hl_field Some array) i) f))
                                                 keys expr_dict)))
                            expr_dict)) s = Inl e"
    by (auto split: option.splits)
qed

lemma unfurl_absent_single:
  assumes "array \<notin> fst ` set (row_type ht) \<or> name \<notin> fst ` set (globals ht)"
  shows "unfurl_array_annotations ht [(array, name)] = Inl ValueError"
proof -
  from assms have "map_of (row_type ht) array = None \<or> map_of (globals ht) name = None"
    by (simp add: map_of_None_iff)
  thus ?thesis
    by (auto simp: unfurl_array_annotations_def bind_err_def split: option.splits)
qed

lemma one_per_pair_length:
  "length (one_per_pair array keys index_dict) = length keys * length index_dict"
  by (induction index_dict) (auto simp: one_per_pair_def)

lemma one_per_pair_member:
  assumes "(k, i) \<in> set index_dict" and "f \<in> set keys"
  shows "(f @ ''_'' @ k, hl_get_field (hl_index (hl_field Some array) i) f)
         \<in> set (one_per_pair array keys index_dict)"
  using assms unfolding one_per_pair_def by force

lemma element_field_value:
  assumes "hl_field Some array row = Some (HArray xs)" and "0 \<le> i" and "i < int (length xs)"
  shows "hl_get_field (hl_index (hl_field Some array) i) f row
         = Inr (case xs ! nat i of None \<Rightarrow> None
                | Some element \<Rightarrow> hl_field (\<lambda>_. Some element) f row)"
  using assms by (simp add: hl_get_field_def hl_index_def hl_field_def split: option.splits)

lemma element_field_from_end:
  assumes "hl_field Some array row = Some (HArray xs)" and "i < 0" and "- i \<le> int (length xs)"
  shows "hl_get_field (hl_index (hl_field Some array) i) f row
         = Inr (case xs ! nat (int (length xs) + i) of None \<Rightarrow> None
                | Some element \<Rightarrow> hl_field (\<lambda>_. Some element) f row)"
  using assms by (simp add: hl_get_field_def hl_index_def hl_field_def split: option.splits)

lemma element_field_outside:
  assumes "hl_field Some array row = Some (HArray xs)"
    and "int (length xs) \<le> i \<or> i < - int (length xs)"
  shows "hl_get_field (hl_index (hl_field Some array) i) f row = Inl HailException"
  using assms by (auto simp add: hl_get_field_def hl_index_def)

lemma element_field_no_array:
  assumes "hl_field Some array row = None"
  shows "hl_get_field (hl_index (hl_field Some array) i) f row = Inr None"
  using assms by (simp add: hl_get_field_def hl_index_def hl_field_def)

lemma hl_eval_dict_set: "set (hl_eval_dict d) = set d"
  by (simp add: hl_eval_dict_def)

lemma hl_eval_dict_length: "length (hl_eval_dict d) = length d"
  by (simp add: hl_eval_dict_def)

text \<open>
  Claim C6, amended. Let the array be a row field of type array of structs and its index
  dict a global, and let the names, a field of the struct followed by an underscore and a
  key of the index dict, be different for different pairs. Then \<^verbatim>\<open>unfurl_array_annotations\<close>
  returns exactly one expression for each pair of a key and a field, under that name, the
  keys in their order, and it is the field of the element of the array at the position the
  index dict gives for the key. At a row whose array has that position, counted from the
  end when it is negative, the expression gives the field of the element there, and it is
  missing when the element is missing; it is missing at a row that has no array; at a row
  whose array does not have the position the evaluation fails. When the array is not a row
  field or the index dict is not a global, the call raises an error: ValueError for a
  single pair, and some error whenever such a pair is among those asked for.
\<close>

theorem unfurl_array_annotations_one_per_pair:
  "(map_of (row_type ht) array = Some (TArray (TStruct fs))
      \<and> map_of (globals ht) name = Some index_dict
      \<and> distinct (map fst (one_per_pair array (map fst fs) (hl_eval_dict index_dict)))
    \<longrightarrow> unfurl_array_annotations ht [(array, name)]
          = Inr (one_per_pair array (map fst fs) (hl_eval_dict index_dict))
        \<and> length (one_per_pair array (map fst fs) (hl_eval_dict index_dict))
            = length fs * length index_dict
        \<and> (\<forall>(k, i) \<in> set index_dict. \<forall>f \<in> set (map fst fs).
              map_of (one_per_pair array (map fst fs) (hl_eval_dict index_dict)) (f @ ''_'' @ k)
                = Some (hl_get_field (hl_index (hl_field Some array) i) f)))
   \<and> (\<forall>row i f.
          (hl_field Some array row = None \<longrightarrow>
             hl_get_field (hl_index (hl_field Some array) i) f row = Inr None)
        \<and> (\<forall>xs. hl_field Some array row = Some (HArray xs) \<longrightarrow>
              (0 \<le> i \<and> i < int (length xs) \<longrightarrow>
                 hl_get_field (hl_index (hl_field Some array) i) f row
                   = Inr (case xs ! nat i of None \<Rightarrow> None
                          | Some element \<Rightarrow> hl_field (\<lambda>_. Some element) f row))
            \<and> (i < 0 \<and> - i \<le> int (length xs) \<longrightarrow>
                 hl_get_field (hl_index (hl_field Some array) i) f row
                   = Inr (case xs ! nat (int (length xs) + i) of None \<Rightarrow> None
                          | Some element \<Rightarrow> hl_field (\<lambda>_. Some element) f row))
            \<and> (int (length xs) \<le> i \<or> i < - int (length xs) \<longrightarrow>
                 hl_get_field (hl_index (hl_field Some array) i) f row = Inl HailException)))
   \<and> ((array, name) \<in> set indexed_array_annotations
        \<and> (array \<notin> fst ` set (row_type ht) \<or> name \<notin> fst ` set (globals ht))
      \<longrightarrow> (\<exists>e. unfurl_array_annotations ht indexed_array_annotations = Inl e))
   \<and> (array \<notin> fst ` set (row_type ht) \<or> name \<notin> fst ` set (globals ht)
      \<longrightarrow> unfurl_array_annotations ht [(array, name)] = Inl ValueError)"
proof (intro conjI impI allI)
  assume h: "map_of (row_type ht) array = Some (TArray (TStruct fs))
             \<and> map_of (globals ht) name = Some index_dict
             \<and> distinct (map fst (one_per_pair array (map fst fs) (hl_eval_dict index_dict)))"
  let ?d = "one_per_pair array (map fst fs) (hl_eval_dict index_dict)"
  from h have dist: "distinct (map fst ([] @ ?d))" by simp
  from h have "unfurl_array_annotations ht [(array, name)] = Inr (assigned ?d [])"
    by (simp only: unfurl_single)
  thus "unfurl_array_annotations ht [(array, name)] = Inr ?d"
    by (simp only: assigned_fresh[OF dist] append_Nil)
  show "length ?d = length fs * length index_dict"
    by (simp add: one_per_pair_length hl_eval_dict_length)
  have "map_of ?d (f @ ''_'' @ k) = Some (hl_get_field (hl_index (hl_field Some array) i) f)"
    if "(k, i) \<in> set index_dict" and "f \<in> set (map fst fs)" for k i f
  proof -
    from that(1) have "(k, i) \<in> set (hl_eval_dict index_dict)"
      by (simp only: hl_eval_dict_set)
    hence "(f @ ''_'' @ k, hl_get_field (hl_index (hl_field Some array) i) f) \<in> set ?d"
      using that(2) by (rule one_per_pair_member)
    moreover from h have "distinct (map fst ?d)" by simp
    ultimately show ?thesis by (simp only: map_of_is_SomeI)
  qed
  thus "\<forall>(k, i) \<in> set index_dict. \<forall>f \<in> set (map fst fs).
          map_of ?d (f @ ''_'' @ k) = Some (hl_get_field (hl_index (hl_field Some array) i) f)"
    by blast
next
  fix row i f
  assume "hl_field Some array row = None"
  thus "hl_get_field (hl_index (hl_field Some array) i) f row = Inr None"
    by (rule element_field_no_array)
next
  fix row i f xs
  assume a: "hl_field Some array row = Some (HArray xs)"
  {
    assume "0 \<le> i \<and> i < int (length xs)"
    with a show "hl_get_field (hl_index (hl_field Some array) i) f row
          = Inr (case xs ! nat i of None \<Rightarrow> None
                 | Some element \<Rightarrow> hl_field (\<lambda>_. Some element) f row)"
      by (simp only: element_field_value)
  }
  {
    assume "i < 0 \<and> - i \<le> int (length xs)"
    with a show "hl_get_field (hl_index (hl_field Some array) i) f row
          = Inr (case xs ! nat (int (length xs) + i) of None \<Rightarrow> None
                 | Some element \<Rightarrow> hl_field (\<lambda>_. Some element) f row)"
      by (simp only: element_field_from_end)
  }
  {
    assume "int (length xs) \<le> i \<or> i < - int (length xs)"
    with a show "hl_get_field (hl_index (hl_field Some array) i) f row = Inl HailException"
      by (rule element_field_outside)
  }
next
  assume "(array, name) \<in> set indexed_array_annotations
          \<and> (array \<notin> fst ` set (row_type ht) \<or> name \<notin> fst ` set (globals ht))"
  thus "\<exists>e. unfurl_array_annotations ht indexed_array_annotations = Inl e"
    using unfurl_absent by blast
next
  assume "array \<notin> fst ` set (row_type ht) \<or> name \<notin> fst ` set (globals ht)"
  thus "unfurl_array_annotations ht [(array, name)] = Inl ValueError"
    by (rule unfurl_absent_single)
qed

theorem unfurl_array_annotations_one_per_pair_witness:
  "map_of (row_type freq_table) ''freq''
     = Some (TArray (TStruct [(''AC'', TInt), (''AF'', TFloat),
                              (''AN_eas'', TInt), (''AN_sas'', TInt)]))
   \<and> map_of (globals freq_table) ''freq_index_dict'' = Some [(''adj'', 0), (''raw'', 1)]
   \<and> map_sum id (map fst)
         (unfurl_array_annotations freq_table [(''freq'', ''freq_index_dict'')])
       = Inr [''AC_adj'', ''AF_adj'', ''AN_eas_adj'', ''AN_sas_adj'',
              ''AC_raw'', ''AF_raw'', ''AN_eas_raw'', ''AN_sas_raw'']
   \<and> bind_err (unfurl_array_annotations freq_table [(''freq'', ''freq_index_dict'')])
         (collect_annotated freq_table)
       = Inr [[(''AC_adj'', Some (HInt 5)), (''AF_adj'', Some (HFloat (1 / 10))),
               (''AN_eas_adj'', Some (HInt 20)), (''AN_sas_adj'', Some (HInt 3)),
               (''AC_raw'', Some (HInt 10)), (''AF_raw'', Some (HFloat (5 / 100))),
               (''AN_eas_raw'', Some (HInt 5)), (''AN_sas_raw'', None)],
              [(''AC_adj'', Some (HInt 6)), (''AF_adj'', Some (HFloat (8 / 100))),
               (''AN_eas_adj'', None), (''AN_sas_adj'', Some (HInt 4)),
               (''AC_raw'', Some (HInt 8)), (''AF_raw'', Some (HFloat (1 / 2))),
               (''AN_eas_raw'', None), (''AN_sas_raw'', None)],
              [(''AC_adj'', Some (HInt 65)), (''AF_adj'', Some (HFloat (18 / 100))),
               (''AN_eas_adj'', None), (''AN_sas_adj'', Some (HInt 2)),
               (''AC_raw'', Some (HInt 88)), (''AF_raw'', Some (HFloat (1 / 5))),
               (''AN_eas_raw'', None), (''AN_sas_raw'', None)],
              [(''AC_adj'', Some (HInt 8)), (''AF_adj'', Some (HFloat (8 / 100))),
               (''AN_eas_adj'', Some (HInt 16)), (''AN_sas_adj'', Some (HInt 2)),
               (''AC_raw'', None), (''AF_raw'', None),
               (''AN_eas_raw'', None), (''AN_sas_raw'', None)]]
   \<and> unfurl_array_annotations freq_table [(''faf'', ''faf_index_dict'')] = Inl ValueError"
proof -
  let ?fs = "[(''AC'', TInt), (''AF'', TFloat), (''AN_eas'', TInt), (''AN_sas'', TInt)]"
  let ?idx = "[(''adj'', 0), (''raw'', 1)] :: (string, int) dict"
  let ?d = "one_per_pair ''freq'' (map fst ?fs) (hl_eval_dict ?idx)"
  have r: "map_of (row_type freq_table) ''freq'' = Some (TArray (TStruct ?fs))" by code_simp
  have g: "map_of (globals freq_table) ''freq_index_dict'' = Some ?idx" by code_simp
  have dist: "distinct (map fst ?d)" by code_simp
  have absent: "''faf'' \<notin> fst ` set (row_type freq_table)
                \<or> ''faf_index_dict'' \<notin> fst ` set (globals freq_table)" by code_simp
  have names: "map_sum id (map fst) (Inr ?d :: error + _)
               = Inr [''AC_adj'', ''AF_adj'', ''AN_eas_adj'', ''AN_sas_adj'',
                      ''AC_raw'', ''AF_raw'', ''AN_eas_raw'', ''AN_sas_raw'']" by code_simp
  have vals: "bind_err (Inr ?d) (collect_annotated freq_table)
       = Inr [[(''AC_adj'', Some (HInt 5)), (''AF_adj'', Some (HFloat (1 / 10))),
               (''AN_eas_adj'', Some (HInt 20)), (''AN_sas_adj'', Some (HInt 3)),
               (''AC_raw'', Some (HInt 10)), (''AF_raw'', Some (HFloat (5 / 100))),
               (''AN_eas_raw'', Some (HInt 5)), (''AN_sas_raw'', None)],
              [(''AC_adj'', Some (HInt 6)), (''AF_adj'', Some (HFloat (8 / 100))),
               (''AN_eas_adj'', None), (''AN_sas_adj'', Some (HInt 4)),
               (''AC_raw'', Some (HInt 8)), (''AF_raw'', Some (HFloat (1 / 2))),
               (''AN_eas_raw'', None), (''AN_sas_raw'', None)],
              [(''AC_adj'', Some (HInt 65)), (''AF_adj'', Some (HFloat (18 / 100))),
               (''AN_eas_adj'', None), (''AN_sas_adj'', Some (HInt 2)),
               (''AC_raw'', Some (HInt 88)), (''AF_raw'', Some (HFloat (1 / 5))),
               (''AN_eas_raw'', None), (''AN_sas_raw'', None)],
              [(''AC_adj'', Some (HInt 8)), (''AF_adj'', Some (HFloat (8 / 100))),
               (''AN_eas_adj'', Some (HInt 16)), (''AN_sas_adj'', Some (HInt 2)),
               (''AC_raw'', None), (''AF_raw'', None),
               (''AN_eas_raw'', None), (''AN_sas_raw'', None)]]" by code_simp
  have eq: "unfurl_array_annotations freq_table [(''freq'', ''freq_index_dict'')] = Inr ?d"
    using unfurl_array_annotations_one_per_pair[of freq_table "''freq''" ?fs "''freq_index_dict''" ?idx] r g dist by blast
  have err: "unfurl_array_annotations freq_table [(''faf'', ''faf_index_dict'')] = Inl ValueError"
    using unfurl_array_annotations_one_per_pair[of freq_table "''faf''" "[]" "''faf_index_dict''" "[]"] absent by blast
  show ?thesis
    by (intro conjI) (simp_all only: eq r g names vals err)
qed

text \<open>
  C6 as stated fails. In the first table the struct has the fields \<open>AN\<close> and \<open>AN_eas\<close> and the
  index dict the keys \<open>eas_adj\<close>, at 0, and \<open>adj\<close>, at 1: there are three expressions for the
  four pairs, and the field \<open>AN_eas\<close> of the element at 1, the position of \<open>adj\<close>, which is 7
  at the row, is not among them; \<open>AN_eas_adj\<close> is the field \<open>AN\<close> of the element at 0. In the
  second table the key \<open>raw\<close> is at 2 and the arrays have two elements: the names are
  distinct, and the values cannot be collected.
\<close>

theorem unfurl_array_annotations_name_clash_counterexample:
  "map_of (row_type overlap_table) ''freq''
     = Some (TArray (TStruct [(''AN'', TInt), (''AN_eas'', TInt)]))
   \<and> map_of (globals overlap_table) ''freq_index_dict'' = Some [(''eas_adj'', 0), (''adj'', 1)]
   \<and> map_sum id (map fst)
         (unfurl_array_annotations overlap_table [(''freq'', ''freq_index_dict'')])
       = Inr [''AN_adj'', ''AN_eas_adj'', ''AN_eas_eas_adj'']
   \<and> bind_err (unfurl_array_annotations overlap_table [(''freq'', ''freq_index_dict'')])
         (collect_annotated overlap_table)
       = Inr [[(''AN_adj'', Some (HInt 120)), (''AN_eas_adj'', Some (HInt 100)),
               (''AN_eas_eas_adj'', Some (HInt 40))]]
   \<and> map (hl_get_field (hl_index (hl_field Some ''freq'') 1) ''AN_eas'') (rows overlap_table)
       = [Inr (Some (HInt 7))]
   \<and> map_sum id (map fst)
         (unfurl_array_annotations short_array_table [(''freq'', ''freq_index_dict'')])
       = Inr [''AC_adj'', ''AF_adj'', ''AN_eas_adj'', ''AN_sas_adj'',
              ''AC_raw'', ''AF_raw'', ''AN_eas_raw'', ''AN_sas_raw'']
   \<and> bind_err (unfurl_array_annotations short_array_table [(''freq'', ''freq_index_dict'')])
         (collect_annotated short_array_table)
       = Inl HailException"
  by code_simp

end
